(* ===== verification/Prelude.thy ===== *)
theory Prelude
  imports Complex_Main "HOL-Library.Word" "HOL-Library.Multiset"
    "HOL-Library.List_Lexorder" "HOL-Library.Char_ord"
begin

text \<open>
  Shared vocabulary of the GIP development: the errors the C++ code raises or
  runs into (exceptions, out-of-range accesses, undefined casts), a value type
  for IEEE doubles that keeps NaN and the infinities apart from finite values,
  the C conversion of a double to an unsigned integer, a fold in the error
  monad (the model of a loop whose body may fail), and generic lemmas on lists
  that the component theories share.
\<close>

named_theorems fval_simps "evaluation rules of the IEEE-style value type"
named_theorems gip_simps "component equations the properties unfold"

section \<open>Errors\<close>

text \<open>
  One constructor per way the code fails.  \<open>std::out_of_range\<close> exceptions and
  the reads and writes outside a buffer that C++ leaves undefined are both
  values here, so that a theorem can say which path the code takes.
\<close>

datatype gip_error =
    ChunkOutOfRange nat          \<comment> \<open>\<open>Read(iChunk)\<close> with \<open>iChunk \<notin> [1, NumChunks]\<close>\<close>
  | MissingPlane "nat \<times> nat"    \<comment> \<open>backing source has no such dataset/band\<close>
  | PixelOutOfRange "nat \<times> nat" \<comment> \<open>a window read outside the stored plane\<close>
  | NoBandOfColor string         \<comment> \<open>\<open>throw std::out_of_range("No band of color ...")\<close>\<close>
  | BandIndexOutOfRange nat      \<comment> \<open>\<open>_RasterBands[i]\<close> or \<open>erase\<close> outside the vector\<close>
  | HistBinOutOfRange nat        \<comment> \<open>\<open>hist[i]++\<close> with \<open>i \<ge> bins\<close>\<close>
  | ReadPastEnd nat              \<comment> \<open>\<open>hist[ind]\<close> read with \<open>ind \<ge> bins\<close>\<close>
  | InvalidCast                  \<comment> \<open>double to integer conversion of NaN, inf or out of range\<close>
  | IntOverflow                  \<comment> \<open>signed \<open>int\<close> overflow\<close>
  | TileSizeMismatch nat         \<comment> \<open>\<open>Write(cimg, iChunk)\<close> of a buffer whose size is not the tile's\<close>
  | SubstrOutOfRange nat         \<comment> \<open>\<open>std::out_of_range\<close> from \<open>substr(pos)\<close> with \<open>pos > size()\<close>\<close>

type_synonym 'a result = "gip_error + 'a"

fun ebind :: "'a result \<Rightarrow> ('a \<Rightarrow> 'b result) \<Rightarrow> 'b result" where
  "ebind (Inl e) f = Inl e"
| "ebind (Inr x) f = f x"

text \<open>A loop over a list whose body may fail: the first failure ends it.\<close>

fun fold_err :: "('b \<Rightarrow> 'a \<Rightarrow> 'a result) \<Rightarrow> 'b list \<Rightarrow> 'a \<Rightarrow> 'a result" where
  "fold_err f [] a = Inr a"
| "fold_err f (x # xs) a = ebind (f x a) (fold_err f xs)"

text \<open>\<open>std::vector\<close> of results gathered by a loop that stops at the first failure.\<close>

fun map_err :: "('b \<Rightarrow> 'a result) \<Rightarrow> 'b list \<Rightarrow> 'a list result" where
  "map_err f [] = Inr []"
| "map_err f (x # xs) = ebind (f x) (\<lambda>y. ebind (map_err f xs) (\<lambda>ys. Inr (y # ys)))"

section \<open>IEEE-style doubles\<close>

text \<open>
  Finite doubles are modelled by exact reals (rounding is not modelled); the
  non-finite values are kept, because the code produces them: \<open>0/0\<close> is NaN,
  \<open>x/0\<close> an infinity, and every comparison with NaN is false.  Signed zero is
  not modelled.
\<close>

datatype fval = Fin real | PInf | NInf | NaN

definition inf_of_sign :: "real \<Rightarrow> fval" where
  "inf_of_sign s = (if 0 < s then PInf else if s < 0 then NInf else NaN)"

fun fsgn :: "fval \<Rightarrow> real" where
  "fsgn (Fin a) = sgn a"
| "fsgn PInf = 1"
| "fsgn NInf = -1"
| "fsgn NaN = 0"

fun fadd :: "fval \<Rightarrow> fval \<Rightarrow> fval" where
  "fadd (Fin a) (Fin b) = Fin (a + b)"
| "fadd NaN y = NaN"
| "fadd x NaN = NaN"
| "fadd (Fin a) y = y"
| "fadd x (Fin b) = x"
| "fadd PInf PInf = PInf"
| "fadd NInf NInf = NInf"
| "fadd PInf NInf = NaN"
| "fadd NInf PInf = NaN"

fun fneg :: "fval \<Rightarrow> fval" where
  "fneg (Fin a) = Fin (- a)"
| "fneg PInf = NInf"
| "fneg NInf = PInf"
| "fneg NaN = NaN"

definition fsub :: "fval \<Rightarrow> fval \<Rightarrow> fval" where
  "fsub x y = fadd x (fneg y)"

fun fmul :: "fval \<Rightarrow> fval \<Rightarrow> fval" where
  "fmul (Fin a) (Fin b) = Fin (a * b)"
| "fmul NaN y = NaN"
| "fmul x NaN = NaN"
| "fmul x y = inf_of_sign (fsgn x * fsgn y)"

fun fdiv :: "fval \<Rightarrow> fval \<Rightarrow> fval" where
  "fdiv (Fin a) (Fin b) = (if b = 0 then inf_of_sign (sgn a) else Fin (a / b))"
| "fdiv NaN y = NaN"
| "fdiv x NaN = NaN"
| "fdiv (Fin a) y = Fin 0"
| "fdiv x (Fin b) = (if b = 0 then x else inf_of_sign (fsgn x * sgn b))"
| "fdiv x y = NaN"

fun fsqrt :: "fval \<Rightarrow> fval" where
  "fsqrt (Fin a) = (if a < 0 then NaN else Fin (sqrt a))"
| "fsqrt PInf = PInf"
| "fsqrt NInf = NaN"
| "fsqrt NaN = NaN"

text \<open>The comparison \<open>x < y\<close> of two doubles: false whenever one is NaN.\<close>

fun fless :: "fval \<Rightarrow> fval \<Rightarrow> bool" where
  "fless (Fin a) (Fin b) = (a < b)"
| "fless NaN y = False"
| "fless x NaN = False"
| "fless NInf y = (y \<noteq> NInf)"
| "fless x PInf = (x \<noteq> PInf)"
| "fless x y = False"

text \<open>
  C++ conversion of a double to \<open>unsigned int\<close>: truncation towards zero,
  defined only when the truncated value is representable.
\<close>

definition uint_of_double :: "fval \<Rightarrow> nat result" where
  "uint_of_double v = (case v of
      Fin a \<Rightarrow> (if -1 < a \<and> a < 2 ^ 32 then Inr (nat \<lfloor>a\<rfloor>) else Inl InvalidCast)
    | _ \<Rightarrow> Inl InvalidCast)"

lemma inf_of_sign_zero [simp, fval_simps]: "inf_of_sign 0 = NaN"
  by (simp add: inf_of_sign_def)

lemma fdiv_Fin_Fin [fval_simps]:
  "b \<noteq> 0 \<Longrightarrow> fdiv (Fin a) (Fin b) = Fin (a / b)"
  by simp

lemma fdiv_zero_zero [fval_simps]: "fdiv (Fin 0) (Fin 0) = NaN"
  by (simp add: inf_of_sign_def)

lemma fsqrt_nonneg [fval_simps]: "0 \<le> a \<Longrightarrow> fsqrt (Fin a) = Fin (sqrt a)"
  by simp

lemma fsub_Fin [fval_simps]: "fsub (Fin a) (Fin b) = Fin (a - b)"
  by (simp add: fsub_def)

lemma fsub_NaN [fval_simps]: "fsub x NaN = NaN"
  by (cases x) (simp_all add: fsub_def)

lemma fmul_NaN_right [fval_simps]: "fmul x NaN = NaN"
  by (cases x) simp_all

lemma fadd_NaN_right [fval_simps]: "fadd x NaN = NaN"
  by (cases x) simp_all

lemma fdiv_NaN_right [fval_simps]: "fdiv x NaN = NaN"
  by (cases x) simp_all

lemma uint_of_double_Fin [fval_simps]:
  "0 \<le> a \<Longrightarrow> a < 2 ^ 32 \<Longrightarrow> uint_of_double (Fin a) = Inr (nat \<lfloor>a\<rfloor>)"
  by (simp add: uint_of_double_def)

lemma uint_of_double_NaN [fval_simps]: "uint_of_double NaN = Inl InvalidCast"
  by (simp add: uint_of_double_def)

section \<open>The error monad\<close>

lemma ebind_Inr_iff [simp]:
  "ebind m f = Inr y \<longleftrightarrow> (\<exists>x. m = Inr x \<and> f x = Inr y)"
  by (cases m) auto

lemma ebind_eq_Inl_iff:
  "ebind m f = Inl e \<longleftrightarrow> m = Inl e \<or> (\<exists>x. m = Inr x \<and> f x = Inl e)"
  by (cases m) auto

lemma ebind_assoc:
  "ebind (ebind m f) g = ebind m (\<lambda>x. ebind (f x) g)"
  by (cases m) simp_all

lemma fold_err_append:
  "fold_err f (xs @ ys) a = ebind (fold_err f xs a) (fold_err f ys)"
proof (induction xs arbitrary: a)
  case Nil
  then show ?case by simp
next
  case (Cons x xs)
  have "fold_err f (xs @ ys) = (\<lambda>b. ebind (fold_err f xs b) (fold_err f ys))"
    using Cons.IH by (simp add: fun_eq_iff)
  then show ?case by (simp add: ebind_assoc)
qed

text \<open>A loop whose body never fails computes the plain fold.\<close>

lemma fold_err_total:
  assumes "\<And>x a. x \<in> set xs \<Longrightarrow> f x a = Inr (g x a)"
  shows "fold_err f xs a = Inr (fold g xs a)"
  using assms by (induction xs arbitrary: a) auto

lemma map_err_total:
  assumes "\<And>x. x \<in> set xs \<Longrightarrow> f x = Inr (g x)"
  shows "map_err f xs = Inr (map g xs)"
  using assms by (induction xs) auto

text \<open>
  A loop whose every step keeps an invariant or fails with \<open>e\<close>, and one of
  whose elements fails with \<open>e\<close> in every invariant state, fails with \<open>e\<close>.
\<close>

lemma fold_err_Inl_inv:
  assumes "P s"
    and step: "\<And>x s. x \<in> set xs \<Longrightarrow> P s \<Longrightarrow> f x s = Inl e \<or> (\<exists>s'. f x s = Inr s' \<and> P s')"
    and bad: "\<And>s. P s \<Longrightarrow> f x0 s = Inl e" and x0: "x0 \<in> set xs"
  shows "fold_err f xs s = Inl e"
  using assms(1) step x0
proof (induction xs arbitrary: s)
  case Nil
  then show ?case by simp
next
  case (Cons x xs)
  show ?case
  proof (cases "x = x0")
    case True
    with bad Cons.prems(1) show ?thesis by simp
  next
    case False
    with Cons.prems(3) have x0': "x0 \<in> set xs" by simp
    from Cons.prems(2) [of x s] Cons.prems(1)
    consider "f x s = Inl e" | s' where "f x s = Inr s'" "P s'" by auto
    then show ?thesis
    proof cases
      case 1
      then show ?thesis by simp
    next
      case 2
      have "fold_err f xs s' = Inl e"
        using Cons.IH [OF 2(2) _ x0'] Cons.prems(2) by simp
      with 2(1) show ?thesis by simp
    qed
  qed
qed

text \<open>A loop whose every step keeps an invariant succeeds in an invariant state.\<close>

lemma fold_err_inv:
  assumes "P s" and "\<And>x s. x \<in> set xs \<Longrightarrow> P s \<Longrightarrow> \<exists>s'. f x s = Inr s' \<and> P s'"
  shows "\<exists>s'. fold_err f xs s = Inr s' \<and> P s'"
  using assms
proof (induction xs arbitrary: s)
  case Nil
  then show ?case by simp
next
  case (Cons x xs)
  from Cons.prems obtain s1 where s1: "f x s = Inr s1" "P s1" by (meson list.set_intros(1))
  have "\<exists>s'. fold_err f xs s1 = Inr s' \<and> P s'"
    using Cons.IH [OF s1(2)] Cons.prems(2) by simp
  with s1(1) show ?case by simp
qed

lemma map_err_Inr_iff:
  "map_err f xs = Inr ys \<longleftrightarrow>
     (\<forall>x\<in>set xs. f x = Inr (projr (f x))) \<and> ys = map (\<lambda>x. projr (f x)) xs"
proof (induction xs arbitrary: ys)
  case Nil
  then show ?case by auto
next
  case (Cons x xs)
  show ?case
  proof (cases "f x")
    case (Inl e)
    then show ?thesis by simp
  next
    case (Inr y)
    with Cons.IH show ?thesis by auto
  qed
qed

lemma map_err_Inr_length:
  "map_err f xs = Inr ys \<Longrightarrow> length ys = length xs"
  by (induction xs arbitrary: ys) auto

section \<open>Lists\<close>

text \<open>Concatenating pairwise disjoint duplicate-free blocks gives no duplicates.\<close>

lemma sum_list_update_group:
  fixes xs :: "'a::ab_group_add list"
  assumes "k < length xs"
  shows "sum_list (xs[k := x]) = sum_list xs + x - xs ! k"
  using assms by (induction xs arbitrary: k) (auto split: nat.split)

lemma distinct_concat_map:
  assumes "distinct xs"
    and "\<And>i. i \<in> set xs \<Longrightarrow> distinct (f i)"
    and "\<And>i j. i \<in> set xs \<Longrightarrow> j \<in> set xs \<Longrightarrow> i \<noteq> j \<Longrightarrow> set (f i) \<inter> set (f j) = {}"
  shows "distinct (concat (map f xs))"
  using assms
proof (induction xs)
  case Nil
  then show ?case by simp
next
  case (Cons x xs)
  have "set (f x) \<inter> set (concat (map f xs)) = {}"
    using Cons.prems(1,3) by fastforce
  with Cons show ?case by simp
qed

lemma ceil_div_bound:
  fixes c n t :: nat
  assumes "0 < c" and "t < (n + c - 1) div c"
  shows "t * c < n"
proof -
  have "Suc t \<le> (n + c - 1) div c" using assms(2) by simp
  then have "Suc t * c \<le> (n + c - 1) div c * c" by (rule mult_right_mono) simp
  also have "\<dots> \<le> n + c - 1" by (simp add: div_times_less_eq_dividend)
  finally show ?thesis using assms(1) by simp
qed

lemma div_lt_ceil_div:
  fixes c n y :: nat
  assumes "0 < c" and "y < n"
  shows "y div c < (n + c - 1) div c"
proof -
  have a: "y div c * c \<le> y" by simp
  have "(y div c + 1) * c = y div c * c + c" by simp
  with a assms(2) have "(y div c + 1) * c \<le> n + c - 1" by linarith
  then have "y div c + 1 \<le> (n + c - 1) div c"
    using assms(1) by (metis div_le_mono nonzero_mult_div_cancel_right less_not_refl2)
  then show ?thesis by simp
qed

text \<open>A coordinate lies in the block of width \<open>c\<close> its quotient names, clipped at \<open>n\<close>.\<close>

lemma mem_clipped_block:
  fixes c n y :: nat
  assumes "0 < c" and "y < n"
  shows "y \<in> {c * (y div c)..<c * (y div c) + min c (n - c * (y div c))}"
proof -
  have a: "c * (y div c) \<le> y" by (simp add: times_div_less_eq_dividend)
  have "y = c * (y div c) + y mod c" by simp
  moreover have "y mod c < c" using assms(1) by simp
  ultimately have "y < c * (y div c) + c" by linarith
  with a assms(2) show ?thesis by auto
qed

end
