(* ===== verification/Tiling.thy ===== *)
theory Tiling
  imports Prelude
begin

text \<open>
  TiledReader.  \<open>GeoData\<close> is the part of a raster every \<open>GeoRaster\<close> and
  \<open>GeoImage\<close> inherits: the backing dataset handle, the pixel size and the
  nominal tile shape.  The chunk loop of \<open>ComputeStats\<close>, \<open>Histogram\<close> and
  \<open>Process\<close> (\<open>for (iChunk=1; iChunk<=NumChunks(); iChunk++) Read(iChunk)\<close>)
  runs over the tiles defined here.  \<open>NumChunks\<close> and the chunk rectangles
  live in headers that are not part of the sources (\<open>GeoData.h\<close>,
  \<open>GeoRasterIO.h\<close>), so they are modelled from the specification (section
  4.1): a row-major grid of tiles of the nominal shape, the last row and
  column clipped to the raster.  The theorems show that the tiles cover every
  pixel exactly once.
\<close>

record GeoData =
  gd_ds :: nat          \<comment> \<open>\<open>_GDALDataset\<close>: handle of the shared backing dataset\<close>
  XSize :: nat          \<comment> \<open>columns\<close>
  YSize :: nat          \<comment> \<open>rows\<close>
  chunk_w :: nat        \<comment> \<open>nominal tile width\<close>
  chunk_h :: nat        \<comment> \<open>nominal tile height\<close>

text \<open>A pixel window: column and row offset, width and height.\<close>

record Rect =
  rect_x0 :: nat
  rect_y0 :: nat
  rect_w :: nat
  rect_h :: nat

definition ceil_div :: "nat \<Rightarrow> nat \<Rightarrow> nat" where
  "ceil_div n c = (n + c - 1) div c"

definition tile_cols :: "'a GeoData_scheme \<Rightarrow> nat" where
  "tile_cols g = ceil_div (XSize g) (chunk_w g)"

definition tile_rows :: "'a GeoData_scheme \<Rightarrow> nat" where
  "tile_rows g = ceil_div (YSize g) (chunk_h g)"

definition NumChunks :: "'a GeoData_scheme \<Rightarrow> nat" where
  "NumChunks g = tile_rows g * tile_cols g"

text \<open>The rectangle of the 1-based tile \<open>k\<close>, tiles numbered row-major.\<close>

definition chunk_rect :: "'a GeoData_scheme \<Rightarrow> nat \<Rightarrow> Rect" where
  "chunk_rect g k =
     (let i = k - 1;
          x0 = i mod tile_cols g * chunk_w g;
          y0 = i div tile_cols g * chunk_h g
      in \<lparr>rect_x0 = x0, rect_y0 = y0,
          rect_w = min (chunk_w g) (XSize g - x0),
          rect_h = min (chunk_h g) (YSize g - y0)\<rparr>)"

definition Chunk :: "'a GeoData_scheme \<Rightarrow> nat \<Rightarrow> Rect result" where
  "Chunk g k = (if 1 \<le> k \<and> k \<le> NumChunks g then Inr (chunk_rect g k)
                else Inl (ChunkOutOfRange k))"

text \<open>
  Pixels as (row, column) pairs, in the order \<open>cimg_for\<close> visits a tile
  buffer: row by row.
\<close>

definition rect_pixels :: "Rect \<Rightarrow> (nat \<times> nat) list" where
  "rect_pixels r = [(y, x). y \<leftarrow> [rect_y0 r..<rect_y0 r + rect_h r],
                             x \<leftarrow> [rect_x0 r..<rect_x0 r + rect_w r]]"

definition raster_pixels :: "'a GeoData_scheme \<Rightarrow> (nat \<times> nat) list" where
  "raster_pixels g = [(y, x). y \<leftarrow> [0..<YSize g], x \<leftarrow> [0..<XSize g]]"

definition chunk_ids :: "'a GeoData_scheme \<Rightarrow> nat list" where
  "chunk_ids g = [1..<Suc (NumChunks g)]"

text \<open>The pixels the chunk loop visits, in the order it visits them.\<close>

definition chunk_pixels :: "'a GeoData_scheme \<Rightarrow> (nat \<times> nat) list" where
  "chunk_pixels g = concat (map (\<lambda>k. rect_pixels (chunk_rect g k)) (chunk_ids g))"

definition valid_chunking :: "'a GeoData_scheme \<Rightarrow> bool" where
  "valid_chunking g \<longleftrightarrow> 0 < chunk_w g \<and> 0 < chunk_h g"

text \<open>
  The chunk-size policy: a byte budget per tile and the bytes per pixel give
  the tile shape.  Whole rows are taken while one row fits in the budget;
  otherwise a tile is a single row cut into pieces of the budget's width.
\<close>

definition chunk_policy :: "nat \<Rightarrow> nat \<Rightarrow> 'a GeoData_scheme \<Rightarrow> 'a GeoData_scheme" where
  "chunk_policy budget bpp g =
     (if bpp * XSize g \<le> budget
      then g\<lparr>chunk_w := max 1 (XSize g), chunk_h := max 1 (budget div max 1 (bpp * XSize g))\<rparr>
      else g\<lparr>chunk_w := max 1 (budget div bpp), chunk_h := 1\<rparr>)"

lemmas tiling_defs = NumChunks_def tile_cols_def tile_rows_def ceil_div_def

section \<open>Where a pixel lies in the tile grid\<close>

lemma set_rect_pixels:
  "set (rect_pixels r) =
     {rect_y0 r..<rect_y0 r + rect_h r} \<times> {rect_x0 r..<rect_x0 r + rect_w r}"
  by (auto simp: rect_pixels_def)

lemma set_chunk_ids: "set (chunk_ids g) = {1..NumChunks g}"
  by (auto simp: chunk_ids_def)

lemma set_raster_pixels: "set (raster_pixels g) = {0..<YSize g} \<times> {0..<XSize g}"
  by (auto simp: raster_pixels_def)

lemma distinct_rect_pixels: "distinct (rect_pixels r)"
  unfolding rect_pixels_def
  by (rule distinct_concat_map) (auto simp: distinct_map inj_on_def)

lemma chunk_rect_pixel_iff:
  assumes v: "valid_chunking g" and k: "1 \<le> k" "k \<le> NumChunks g"
  shows "(y, x) \<in> set (rect_pixels (chunk_rect g k)) \<longleftrightarrow>
           y < YSize g \<and> x < XSize g \<and> k - 1 = y div chunk_h g * tile_cols g + x div chunk_w g"
    (is "?l \<longleftrightarrow> ?r")
proof -
  define i where "i = k - 1"
  define C where "C = tile_cols g"
  define tr where "tr = i div C"
  define tc where "tc = i mod C"
  have cw: "0 < chunk_w g" and ch: "0 < chunk_h g" using v by (auto simp: valid_chunking_def)
  have iN: "i < tile_rows g * C" using k by (simp add: i_def C_def NumChunks_def)
  then have C0: "0 < C" by (cases C) auto
  have tc: "tc < C" using C0 by (simp add: tc_def)
  have tr: "tr < tile_rows g" using iN C0 by (simp add: tr_def less_mult_imp_div_less)
  have x0: "tc * chunk_w g < XSize g"
    using ceil_div_bound [OF cw] tc by (simp add: C_def tile_cols_def ceil_div_def)
  have y0: "tr * chunk_h g < YSize g"
    using ceil_div_bound [OF ch] tr by (simp add: tile_rows_def ceil_div_def)
  have rect: "chunk_rect g k = \<lparr>rect_x0 = tc * chunk_w g, rect_y0 = tr * chunk_h g,
       rect_w = min (chunk_w g) (XSize g - tc * chunk_w g),
       rect_h = min (chunk_h g) (YSize g - tr * chunk_h g)\<rparr>"
    by (simp add: chunk_rect_def Let_def i_def C_def tr_def tc_def)
  have i_eq: "i = tr * C + tc" by (simp add: tr_def tc_def)
  show ?thesis
  proof
    assume ?l
    then have yr: "tr * chunk_h g \<le> y" "y < tr * chunk_h g + chunk_h g" "y < YSize g"
      and xr: "tc * chunk_w g \<le> x" "x < tc * chunk_w g + chunk_w g" "x < XSize g"
      by (auto simp: rect set_rect_pixels)
    have "y div chunk_h g = tr"
      using yr(1,2) ch by (simp add: div_nat_eqI mult.commute)
    moreover have "x div chunk_w g = tc"
      using xr(1,2) cw by (simp add: div_nat_eqI mult.commute)
    ultimately show ?r using yr(3) xr(3) i_eq by (simp add: i_def C_def)
  next
    assume ?r
    then have y: "y < YSize g" and x: "x < XSize g"
      and ki: "i = y div chunk_h g * C + x div chunk_w g" by (simp_all add: i_def C_def)
    have xc: "x div chunk_w g < C"
      using div_lt_ceil_div [OF cw x] by (simp add: C_def tile_cols_def ceil_div_def)
    have "tr = y div chunk_h g" "tc = x div chunk_w g"
      using ki xc by (simp_all add: tr_def tc_def)
    then show ?l
      using mem_clipped_block [OF ch y] mem_clipped_block [OF cw x]
      by (simp add: rect set_rect_pixels mult.commute)
  qed
qed

text \<open>The tile that holds a pixel of the raster is a tile of the loop.\<close>

lemma pixel_tile_in_range:
  assumes v: "valid_chunking g" and y: "y < YSize g" and x: "x < XSize g"
  shows "1 \<le> y div chunk_h g * tile_cols g + x div chunk_w g + 1"
    and "y div chunk_h g * tile_cols g + x div chunk_w g + 1 \<le> NumChunks g"
proof -
  have cw: "0 < chunk_w g" and ch: "0 < chunk_h g" using v by (auto simp: valid_chunking_def)
  have xc: "x div chunk_w g < tile_cols g"
    using div_lt_ceil_div [OF cw x] by (simp add: tile_cols_def ceil_div_def)
  have yr: "y div chunk_h g < tile_rows g"
    using div_lt_ceil_div [OF ch y] by (simp add: tile_rows_def ceil_div_def)
  have "y div chunk_h g * tile_cols g + x div chunk_w g < (y div chunk_h g + 1) * tile_cols g"
    using xc by simp
  also have "\<dots> \<le> tile_rows g * tile_cols g"
    using yr by (intro mult_right_mono) simp_all
  finally show "y div chunk_h g * tile_cols g + x div chunk_w g + 1 \<le> NumChunks g"
    by (simp add: NumChunks_def)
qed simp

section \<open>The tiles cover the raster exactly once\<close>

lemma set_chunk_pixels:
  assumes v: "valid_chunking g"
  shows "set (chunk_pixels g) = set (raster_pixels g)"
proof (intro set_eqI iffI)
  fix p assume "p \<in> set (chunk_pixels g)"
  then obtain k where k: "1 \<le> k" "k \<le> NumChunks g" and p: "p \<in> set (rect_pixels (chunk_rect g k))"
    by (auto simp: chunk_pixels_def set_chunk_ids)
  obtain y x where "p = (y, x)" by (cases p)
  with chunk_rect_pixel_iff [OF v k] p show "p \<in> set (raster_pixels g)"
    by (simp add: set_raster_pixels)
next
  fix p assume "p \<in> set (raster_pixels g)"
  then obtain y x where p: "p = (y, x)" and y: "y < YSize g" and x: "x < XSize g"
    by (auto simp: set_raster_pixels)
  define k where "k = y div chunk_h g * tile_cols g + x div chunk_w g + 1"
  have k: "1 \<le> k" "k \<le> NumChunks g"
    using pixel_tile_in_range [OF v y x] by (simp_all add: k_def)
  have "p \<in> set (rect_pixels (chunk_rect g k))"
    using chunk_rect_pixel_iff [OF v k] y x p by (simp add: k_def)
  with k show "p \<in> set (chunk_pixels g)"
    by (auto simp: chunk_pixels_def set_chunk_ids)
qed

lemma distinct_chunk_pixels:
  assumes v: "valid_chunking g"
  shows "distinct (chunk_pixels g)"
  unfolding chunk_pixels_def
proof (rule distinct_concat_map)
  show "distinct (chunk_ids g)" by (simp add: chunk_ids_def)
next
  fix k show "distinct (rect_pixels (chunk_rect g k))" by (rule distinct_rect_pixels)
next
  fix k j assume k: "k \<in> set (chunk_ids g)" and j: "j \<in> set (chunk_ids g)" and kj: "k \<noteq> j"
  have k': "1 \<le> k" "k \<le> NumChunks g" and j': "1 \<le> j" "j \<le> NumChunks g"
    using k j by (auto simp: set_chunk_ids)
  show "set (rect_pixels (chunk_rect g k)) \<inter> set (rect_pixels (chunk_rect g j)) = {}"
  proof (rule ccontr)
    assume "set (rect_pixels (chunk_rect g k)) \<inter> set (rect_pixels (chunk_rect g j)) \<noteq> {}"
    then obtain y x where "(y, x) \<in> set (rect_pixels (chunk_rect g k))"
      and "(y, x) \<in> set (rect_pixels (chunk_rect g j))" by auto
    then have "k - 1 = j - 1"
      using chunk_rect_pixel_iff [OF v k'] chunk_rect_pixel_iff [OF v j'] by simp
    with k'(1) j'(1) kj show False by simp
  qed
qed

lemma distinct_raster_pixels: "distinct (raster_pixels g)"
  unfolding raster_pixels_def
  by (rule distinct_concat_map) (auto simp: distinct_map inj_on_def)

end
