(* ===== verification/Raster.thy ===== *)
theory Raster
  imports Tiling
begin

text \<open>
  Band: the state of one \<open>GeoRaster\<close> (\<open>src/GIP/GeoRaster.cpp\<close>) and its
  pixel access.  A band is a record extending \<open>GeoData\<close>, as the class
  extends \<open>GeoData\<close>; its pixels live in a store shared by all bands
  (\<open>_GDALDataset\<close> is a reference-counted handle, so several bands may read
  and write the same plane).  The store maps a (dataset handle, band number)
  pair to a plane of stored values.  \<open>GeoRasterIO<T>::Read\<close>, the setters and
  \<open>MaxValue\<close>/\<open>MinValue\<close> are declared in headers that are not among the
  sources; they are modelled from the specification (sections 3 and 4.1):
  a read applies gain and offset, then the band's functions in order, then its
  masks, a masked pixel reading as the no-data value.
\<close>

datatype GDALDataType =
    GDT_Unknown | GDT_Byte | GDT_UInt16 | GDT_Int16 | GDT_UInt32 | GDT_Int32
  | GDT_Float32 | GDT_Float64 | GDT_CInt16 | GDT_CInt32 | GDT_CFloat32 | GDT_CFloat64

text \<open>\<open>GeoFunction\<close>: a named per-pixel operation and its operand.\<close>

record GeoFunction =
  Function :: string
  Operand :: real

text \<open>A mask: the plane it reads and the threshold a value must exceed.\<close>

record GeoMask =
  mask_src :: "nat \<times> nat"
  mask_threshold :: real

text \<open>The six floats of \<open>_Stats\<close>: \<open>min, max, mean, stdev, skew, count\<close>.\<close>

record Stats =
  smin :: real
  smax :: real
  smean :: fval
  sstdev :: fval
  sskew :: fval
  scount :: nat

record GeoRaster = GeoData +
  band_num :: nat               \<comment> \<open>\<open>_GDALRasterBand\<close>: band number in the dataset\<close>
  DataType :: GDALDataType
  Gain :: real
  Offset :: real
  NoData :: bool                \<comment> \<open>\<open>_NoData\<close>\<close>
  NoDataValue :: real
  ValidStats :: bool            \<comment> \<open>\<open>_ValidStats\<close>\<close>
  StatsCache :: Stats           \<comment> \<open>\<open>_Stats\<close>\<close>
  Functions :: "GeoFunction list"
  Masks :: "GeoMask list"
  Description :: string

type_synonym plane = "real list list"
type_synonym store = "nat \<times> nat \<Rightarrow> plane option"

definition plane_key :: "'a GeoRaster_scheme \<Rightarrow> nat \<times> nat" where
  "plane_key b = (gd_ds b, band_num b)"

section \<open>Type limits\<close>

text \<open>\<open>MaxValue()\<close> and \<open>MinValue()\<close>: the extremes of the band's data type.\<close>

fun MaxValue_of :: "GDALDataType \<Rightarrow> real" where
  "MaxValue_of GDT_Byte = 255"
| "MaxValue_of GDT_UInt16 = 65535"
| "MaxValue_of GDT_Int16 = 32767"
| "MaxValue_of GDT_UInt32 = 4294967295"
| "MaxValue_of GDT_Int32 = 2147483647"
| "MaxValue_of GDT_CInt16 = 32767"
| "MaxValue_of GDT_CInt32 = 2147483647"
| "MaxValue_of GDT_Float32 = (2 - 1 / 2 ^ 23) * 2 ^ 127"
| "MaxValue_of GDT_CFloat32 = (2 - 1 / 2 ^ 23) * 2 ^ 127"
| "MaxValue_of _ = (2 - 1 / 2 ^ 52) * 2 ^ 1023"

fun MinValue_of :: "GDALDataType \<Rightarrow> real" where
  "MinValue_of GDT_Byte = 0"
| "MinValue_of GDT_UInt16 = 0"
| "MinValue_of GDT_Int16 = -32768"
| "MinValue_of GDT_UInt32 = 0"
| "MinValue_of GDT_Int32 = -2147483648"
| "MinValue_of GDT_CInt16 = -32768"
| "MinValue_of GDT_CInt32 = -2147483648"
| "MinValue_of GDT_Float32 = - ((2 - 1 / 2 ^ 23) * 2 ^ 127)"
| "MinValue_of GDT_CFloat32 = - ((2 - 1 / 2 ^ 23) * 2 ^ 127)"
| "MinValue_of _ = - ((2 - 1 / 2 ^ 52) * 2 ^ 1023)"

definition MaxValue :: "'a GeoRaster_scheme \<Rightarrow> real" where
  "MaxValue b = MaxValue_of (DataType b)"

definition MinValue :: "'a GeoRaster_scheme \<Rightarrow> real" where
  "MinValue b = MinValue_of (DataType b)"

section \<open>Reading pixels\<close>

text \<open>
  The per-pixel interpreter of a function entry: scale by the operand, add
  the operand, clip at the operand; any other name leaves the value alone.
\<close>

definition func_apply :: "GeoFunction \<Rightarrow> real \<Rightarrow> real" where
  "func_apply f v =
     (if Function f = ''scale'' then v * Operand f
      else if Function f = ''offset'' then v + Operand f
      else if Function f = ''clip'' then min v (Operand f)
      else v)"

definition stored_value :: "store \<Rightarrow> nat \<times> nat \<Rightarrow> nat \<times> nat \<Rightarrow> real result" where
  "stored_value st key p =
     (case st key of
        None \<Rightarrow> Inl (MissingPlane key)
      | Some pl \<Rightarrow> (case p of (y, x) \<Rightarrow>
          if y < length pl \<and> x < length (pl ! y) then Inr (pl ! y ! x)
          else Inl (PixelOutOfRange p)))"

definition mask_holds :: "store \<Rightarrow> nat \<times> nat \<Rightarrow> GeoMask \<Rightarrow> bool \<Rightarrow> bool result" where
  "mask_holds st p m ok =
     ebind (stored_value st (mask_src m) p) (\<lambda>v. Inr (ok \<and> mask_threshold m < v))"

text \<open>The value \<open>Read\<close> delivers for one pixel.\<close>

definition pixel_value :: "store \<Rightarrow> 'a GeoRaster_scheme \<Rightarrow> nat \<times> nat \<Rightarrow> real result" where
  "pixel_value st b p =
     ebind (stored_value st (plane_key b) p) (\<lambda>v.
       ebind (fold_err (mask_holds st p) (Masks b) True) (\<lambda>ok.
         Inr (if ok then fold func_apply (Functions b) (v * Gain b + Offset b)
              else NoDataValue b)))"

definition read_rect :: "store \<Rightarrow> 'a GeoRaster_scheme \<Rightarrow> Rect \<Rightarrow> real list result" where
  "read_rect st b r = map_err (pixel_value st b) (rect_pixels r)"

text \<open>\<open>GeoRasterIO<T>::Read(iChunk)\<close>: the tile's buffer, row by row.\<close>

definition Read :: "store \<Rightarrow> 'a GeoRaster_scheme \<Rightarrow> nat \<Rightarrow> real list result" where
  "Read st b k = ebind (Chunk b k) (read_rect st b)"

text \<open>All pixel values of the band in raster order, if every pixel can be read.\<close>

definition raster_values :: "store \<Rightarrow> 'a GeoRaster_scheme \<Rightarrow> real list result" where
  "raster_values st b = map_err (pixel_value st b) (raster_pixels b)"

text \<open>
  The loop every pass over a band shares:
  \<open>for (iChunk=1; iChunk<=NumChunks(); iChunk++) { cimg = img.Read(iChunk);
  cimg_for(cimg,ptr,double) body }\<close>, the body a step on an accumulator.
\<close>

definition chunk_loop ::
  "store \<Rightarrow> 'a GeoRaster_scheme \<Rightarrow> (real \<Rightarrow> 's \<Rightarrow> 's) \<Rightarrow> 's \<Rightarrow> 's result" where
  "chunk_loop st b body s =
     fold_err (\<lambda>k s. ebind (Read st b k) (\<lambda>vs. Inr (fold body vs s))) (chunk_ids b) s"

text \<open>The same loop with a body that may fail (a cast or a buffer write).\<close>

definition chunk_loop_err ::
  "store \<Rightarrow> 'a GeoRaster_scheme \<Rightarrow> (real \<Rightarrow> 's \<Rightarrow> 's result) \<Rightarrow> 's \<Rightarrow> 's result" where
  "chunk_loop_err st b body s =
     fold_err (\<lambda>k s. ebind (Read st b k) (\<lambda>vs. fold_err body vs s)) (chunk_ids b) s"

section \<open>Setters and the copy constructor\<close>

text \<open>
  The setters of \<open>GeoRaster.h\<close>: each changes what a read delivers, so each
  drops the cached statistics (specification, section 3).
\<close>

definition SetGain :: "real \<Rightarrow> 'a GeoRaster_scheme \<Rightarrow> 'a GeoRaster_scheme" where
  "SetGain g b = b\<lparr>Gain := g, ValidStats := False\<rparr>"

definition SetOffset :: "real \<Rightarrow> 'a GeoRaster_scheme \<Rightarrow> 'a GeoRaster_scheme" where
  "SetOffset off b = b\<lparr>Offset := off, ValidStats := False\<rparr>"

definition SetNoData :: "real \<Rightarrow> 'a GeoRaster_scheme \<Rightarrow> 'a GeoRaster_scheme" where
  "SetNoData v b = b\<lparr>NoData := True, NoDataValue := v, ValidStats := False\<rparr>"

definition AddFunction :: "GeoFunction \<Rightarrow> 'a GeoRaster_scheme \<Rightarrow> 'a GeoRaster_scheme" where
  "AddFunction f b = b\<lparr>Functions := Functions b @ [f], ValidStats := False\<rparr>"

text \<open>
  \<open>GeoRaster(const GeoRaster& image, GeoFunction func)\<close>: every member is
  copied, the cached statistics and their flag included, then the function is
  appended unless its name is empty.
\<close>

definition GeoRaster_copy :: "'a GeoRaster_scheme \<Rightarrow> GeoFunction \<Rightarrow> 'a GeoRaster_scheme" where
  "GeoRaster_copy img func =
     (if Function func \<noteq> '''' then AddFunction func img else img)"

text \<open>Two bands read alike when they agree on every field a read looks at.\<close>

definition same_pixels :: "'a GeoRaster_scheme \<Rightarrow> 'a GeoRaster_scheme \<Rightarrow> bool" where
  "same_pixels b c \<longleftrightarrow>
     gd_ds b = gd_ds c \<and> XSize b = XSize c \<and> YSize b = YSize c \<and>
     chunk_w b = chunk_w c \<and> chunk_h b = chunk_h c \<and> band_num b = band_num c \<and>
     Gain b = Gain c \<and> Offset b = Offset c \<and> Functions b = Functions c \<and>
     Masks b = Masks c \<and> NoDataValue b = NoDataValue c"

text \<open>The value of a pixel, where the read succeeds.\<close>

definition pixel_at :: "store \<Rightarrow> 'a GeoRaster_scheme \<Rightarrow> nat \<times> nat \<Rightarrow> real" where
  "pixel_at st b p = projr (pixel_value st b p)"

text \<open>The values the chunk loop sees, in the order it sees them.\<close>

definition chunk_values :: "store \<Rightarrow> 'a GeoRaster_scheme \<Rightarrow> real list" where
  "chunk_values st b = map (pixel_at st b) (chunk_pixels b)"

section \<open>A concrete band\<close>

text \<open>
  A one-row, two-column Byte band with gain 2 whose stored values are given,
  read through one-pixel tiles; the witnesses below evaluate on it.
\<close>

definition ex_band :: GeoRaster where
  "ex_band = \<lparr>gd_ds = 0, XSize = 2, YSize = 1, chunk_w = 1, chunk_h = 1,
     band_num = 1, DataType = GDT_Byte, Gain = 2, Offset = 0, NoData = False,
     NoDataValue = 0, ValidStats = False,
     StatsCache = \<lparr>smin = 0, smax = 0, smean = NaN, sstdev = NaN, sskew = NaN, scount = 0\<rparr>,
     Functions = [], Masks = [], Description = ''''\<rparr>"

definition ex_store :: "real list list \<Rightarrow> store" where
  "ex_store pl = (\<lambda>k. if k = (0, 1) then Some pl else None)"

section \<open>What a read depends on\<close>

lemma same_pixels_reads:
  assumes "same_pixels b c"
  shows "Read st b = Read st c" and "chunk_ids b = chunk_ids c"
    and "raster_values st b = raster_values st c"
    and "chunk_loop st b = chunk_loop st c"
proof -
  from assms have e: "gd_ds b = gd_ds c" "XSize b = XSize c" "YSize b = YSize c"
    "chunk_w b = chunk_w c" "chunk_h b = chunk_h c" "band_num b = band_num c"
    "Gain b = Gain c" "Offset b = Offset c" "Functions b = Functions c"
    "Masks b = Masks c" "NoDataValue b = NoDataValue c"
    by (simp_all add: same_pixels_def)
  have rect: "chunk_rect b = chunk_rect c" and nc: "NumChunks b = NumChunks c"
    and px: "pixel_value st b = pixel_value st c"
    by (simp_all add: e fun_eq_iff chunk_rect_def tiling_defs pixel_value_def plane_key_def
                 cong: if_cong)
  show rd: "Read st b = Read st c"
    by (simp add: fun_eq_iff Read_def Chunk_def rect nc read_rect_def px)
  show ids: "chunk_ids b = chunk_ids c" by (simp add: chunk_ids_def nc)
  show "raster_values st b = raster_values st c"
    by (simp add: raster_values_def px e raster_pixels_def)
  show "chunk_loop st b = chunk_loop st c"
    by (simp add: fun_eq_iff chunk_loop_def rd ids)
qed

lemma same_pixels_updates [simp]:
  "same_pixels (b\<lparr>ValidStats := x, StatsCache := s\<rparr>) b"
  "same_pixels (b\<lparr>ValidStats := x\<rparr>) b"
  "same_pixels (b\<lparr>NoData := f\<rparr>) b"
  by (simp_all add: same_pixels_def)

section \<open>Reads of a readable band\<close>

lemma raster_values_Inr:
  assumes "raster_values st b = Inr vs"
  shows "vs = map (pixel_at st b) (raster_pixels b)"
    and "\<And>p. p \<in> set (raster_pixels b) \<Longrightarrow> pixel_value st b p = Inr (pixel_at st b p)"
  using assms by (auto simp: raster_values_def map_err_Inr_iff pixel_at_def)

lemma Read_readable:
  assumes v: "valid_chunking b" and ok: "raster_values st b = Inr vs"
    and k: "k \<in> set (chunk_ids b)"
  shows "Read st b k = Inr (map (pixel_at st b) (rect_pixels (chunk_rect b k)))"
proof -
  have k': "1 \<le> k" "k \<le> NumChunks b" using k by (auto simp: set_chunk_ids)
  have "set (rect_pixels (chunk_rect b k)) \<subseteq> set (chunk_pixels b)"
    using k by (auto simp: chunk_pixels_def)
  then have "\<And>p. p \<in> set (rect_pixels (chunk_rect b k)) \<Longrightarrow> pixel_value st b p = Inr (pixel_at st b p)"
    using raster_values_Inr(2) [OF ok] set_chunk_pixels [OF v] by blast
  then have "read_rect st b (chunk_rect b k) = Inr (map (pixel_at st b) (rect_pixels (chunk_rect b k)))"
    unfolding read_rect_def by (rule map_err_total)
  with k' show ?thesis by (simp add: Read_def Chunk_def)
qed

lemma chunk_loop_readable:
  assumes v: "valid_chunking b" and ok: "raster_values st b = Inr vs"
  shows "chunk_loop st b body s = Inr (fold body (chunk_values st b) s)"
proof -
  have "fold_err (\<lambda>k s. ebind (Read st b k) (\<lambda>vs. Inr (fold body vs s))) ks s =
          Inr (fold body (map (pixel_at st b) (concat (map (\<lambda>k. rect_pixels (chunk_rect b k)) ks))) s)"
    if "set ks \<subseteq> set (chunk_ids b)" for ks
    using that
  proof (induction ks arbitrary: s)
    case Nil
    then show ?case by simp
  next
    case (Cons k ks)
    then show ?case by (simp add: Read_readable [OF v ok])
  qed
  then show ?thesis by (simp add: chunk_loop_def chunk_values_def chunk_pixels_def)
qed

lemma chunk_loop_err_readable:
  assumes v: "valid_chunking b" and ok: "raster_values st b = Inr vs"
  shows "chunk_loop_err st b body s = fold_err body (chunk_values st b) s"
proof -
  have "fold_err (\<lambda>k s. ebind (Read st b k) (\<lambda>vs. fold_err body vs s)) ks s =
          fold_err body (map (pixel_at st b) (concat (map (\<lambda>k. rect_pixels (chunk_rect b k)) ks))) s"
    if "set ks \<subseteq> set (chunk_ids b)" for ks
    using that
  proof (induction ks arbitrary: s)
    case Nil
    then show ?case by simp
  next
    case (Cons k ks)
    have "(\<lambda>s. fold_err (\<lambda>k s. ebind (Read st b k) (\<lambda>vs. fold_err body vs s)) ks s) =
          fold_err body (map (pixel_at st b) (concat (map (\<lambda>k. rect_pixels (chunk_rect b k)) ks)))"
      using Cons by (simp add: fun_eq_iff)
    with Cons.prems show ?case
      by (simp add: Read_readable [OF v ok] fold_err_append)
  qed
  then show ?thesis by (simp add: chunk_loop_err_def chunk_values_def chunk_pixels_def)
qed

text \<open>The chunk loop sees each value of the raster exactly once.\<close>

lemma mset_chunk_values:
  assumes v: "valid_chunking b" and ok: "raster_values st b = Inr vs"
  shows "mset (chunk_values st b) = mset vs"
proof -
  have "mset (chunk_pixels b) = mset (raster_pixels b)"
    by (rule set_eq_iff_mset_eq_distinct [THEN iffD1,
          OF distinct_chunk_pixels [OF v] distinct_raster_pixels set_chunk_pixels [OF v]])
  then show ?thesis
    using raster_values_Inr(1) [OF ok] by (simp add: chunk_values_def mset_map)
qed

lemma raster_values_ex_band:
  "raster_values (ex_store [[a, c]]) ex_band = Inr [2 * a, 2 * c]"
  by (simp add: upt_rec raster_values_def raster_pixels_def ex_band_def ex_store_def
                pixel_value_def stored_value_def plane_key_def)

lemma valid_chunking_ex_band: "valid_chunking ex_band"
  by (simp add: valid_chunking_def ex_band_def)


section \<open>The chunk loop visits every pixel once\<close>

text \<open>
  C2. On a band whose pixels can all be read, the chunk loop
  \<open>for (iChunk=1; iChunk<=NumChunks(); iChunk++)\<close> over \<open>Read(iChunk)\<close>
  folds its body over a list that holds every pixel value of the raster
  exactly once: the tiles neither miss nor repeat a pixel, whatever the body.
\<close>

theorem chunk_loop_exact:
  assumes "valid_chunking b" and "raster_values st b = Inr vs"
  shows "\<exists>ws. mset ws = mset vs \<and> (\<forall>body s. chunk_loop st b body s = Inr (fold body ws s))"
  using mset_chunk_values [OF assms] chunk_loop_readable [OF assms] by blast

theorem chunk_loop_exact_witness:
  "valid_chunking ex_band \<and> raster_values (ex_store [[3, 5]]) ex_band = Inr [6, 10] \<and>
   (\<exists>ws. mset ws = mset [6, 10] \<and>
      (\<forall>body s. chunk_loop (ex_store [[3, 5]]) ex_band body s = Inr (fold body ws s)))"
proof -
  have r: "raster_values (ex_store [[3, 5]]) ex_band = Inr [6, 10]"
    using raster_values_ex_band [of 3 5] by simp
  show ?thesis using chunk_loop_exact [OF valid_chunking_ex_band r] valid_chunking_ex_band r
    by blast
qed

end
