(* ===== verification/Stats.thy ===== *)
theory Stats
  imports Raster
begin

text \<open>
  StatisticsEngine: \<open>GeoRaster::ComputeStats\<close> (\<open>src/GIP/GeoRaster.cpp\<close>,
  lines 84--125).  A cached snapshot is returned as it is; otherwise two passes
  over all chunks compute count, sum, minimum and maximum of the pixels that
  differ from the no-data value, then the second and third central moments,
  and the snapshot is cached.  The abstract specification \<open>stats_of\<close> gives the
  same numbers as functions of the multiset of valid values, NaN for an empty
  one; \<open>compute_fresh_refines\<close> shows that the streaming two-pass code over the
  tiles computes exactly them.
\<close>

text \<open>The accumulators of the first pass: \<open>count, total, min, max\<close>.\<close>

record Pass1 =
  p1_count :: nat
  p1_total :: real
  p1_min :: real
  p1_max :: real

definition pass1_init :: "'a GeoRaster_scheme \<Rightarrow> Pass1" where
  "pass1_init b = \<lparr>p1_count = 0, p1_total = 0, p1_min = MaxValue b, p1_max = MinValue b\<rparr>"

text \<open>Body of the first \<open>cimg_for\<close> loop (lines 97--102).\<close>

definition pass1_pixel :: "real \<Rightarrow> real \<Rightarrow> Pass1 \<Rightarrow> Pass1" where
  "pass1_pixel nd v a =
     (if v \<noteq> nd then
        a\<lparr>p1_total := p1_total a + v, p1_count := Suc (p1_count a),
          p1_max := (if v > p1_max a then v else p1_max a),
          p1_min := (if v < p1_min a then v else p1_min a)\<rparr>
      else a)"

text \<open>Body of the second loop (lines 111--115): \<open>val = *ptr - mean\<close>.\<close>

definition pass2_pixel :: "real \<Rightarrow> fval \<Rightarrow> real \<Rightarrow> fval \<times> fval \<Rightarrow> fval \<times> fval" where
  "pass2_pixel nd mean v t =
     (if v \<noteq> nd then
        (let d = fsub (Fin v) mean
         in (fadd (fst t) (fmul d d), fadd (snd t) (fmul (fmul d d) d)))
      else t)"

text \<open>Lines 118--121: variance, deviation, skewness and the snapshot.\<close>

definition stats_finish :: "Pass1 \<Rightarrow> fval \<Rightarrow> fval \<times> fval \<Rightarrow> Stats" where
  "stats_finish a mean t =
     (let n = Fin (real (p1_count a));
          var = fdiv (fst t) n;
          stdev = fsqrt var;
          skew = fdiv (fdiv (snd t) n) (fsqrt (fmul (fmul var var) var))
      in \<lparr>smin = p1_min a, smax = p1_max a, smean = mean, sstdev = stdev,
          sskew = skew, scount = p1_count a\<rparr>)"

text \<open>The two passes (lines 89--121), without the cache.\<close>

definition compute_fresh :: "store \<Rightarrow> 'a GeoRaster_scheme \<Rightarrow> Stats result" where
  "compute_fresh st b =
     ebind (chunk_loop st b (pass1_pixel (NoDataValue b)) (pass1_init b)) (\<lambda>a.
       let mean = fdiv (Fin (p1_total a)) (Fin (real (p1_count a)))
       in ebind (chunk_loop st b (pass2_pixel (NoDataValue b) mean) (Fin 0, Fin 0)) (\<lambda>t.
            Inr (stats_finish a mean t)))"

text \<open>
  \<open>ComputeStats()\<close>: the band comes back with the cache filled (the C++
  members are \<open>mutable\<close>), together with the snapshot.
\<close>

definition ComputeStats :: "store \<Rightarrow> 'a GeoRaster_scheme \<Rightarrow> ('a GeoRaster_scheme \<times> Stats) result" where
  "ComputeStats st b =
     (if ValidStats b then Inr (b, StatsCache b)
      else ebind (compute_fresh st b) (\<lambda>s. Inr (b\<lparr>ValidStats := True, StatsCache := s\<rparr>, s)))"

section \<open>Abstract specification\<close>

text \<open>
  The statistics of a multiset \<open>M\<close> of valid values (specification, section
  4.2), with \<open>lo\<close> and \<open>hi\<close> the initial sentinels of the minimum and the
  maximum: NaN moments for an empty multiset; otherwise the mean, the
  population standard deviation and the skewness, NaN where the deviation is
  zero.
\<close>

definition stats_of :: "real \<Rightarrow> real \<Rightarrow> real multiset \<Rightarrow> Stats" where
  "stats_of lo hi M =
     (if M = {#} then
        \<lparr>smin = lo, smax = hi, smean = NaN, sstdev = NaN, sskew = NaN, scount = 0\<rparr>
      else
        (let n = real (size M); m = sum_mset M / n;
             var = (\<Sum>v\<in>#M. (v - m) ^ 2) / n;
             m3 = (\<Sum>v\<in>#M. (v - m) ^ 3) / n
         in \<lparr>smin = min lo (Min (set_mset M)), smax = max hi (Max (set_mset M)),
             smean = Fin m, sstdev = Fin (sqrt var),
             sskew = (if var = 0 then NaN else Fin (m3 / sqrt (var ^ 3))),
             scount = size M\<rparr>))"

definition valid_values :: "real \<Rightarrow> real list \<Rightarrow> real multiset" where
  "valid_values nd vs = filter_mset (\<lambda>v. v \<noteq> nd) (mset vs)"

section \<open>The statistics cache as a state machine\<close>

text \<open>
  The operations of a band that touch the cache: the setters, the copy
  constructor with a function, and \<open>ComputeStats\<close> itself.  The store is
  fixed: these operations do not write pixels.
\<close>

datatype band_op =
    OpSetGain real | OpSetOffset real | OpSetNoData real | OpAddFunction GeoFunction
  | OpCopy GeoFunction | OpComputeStats

fun band_step :: "store \<Rightarrow> band_op \<Rightarrow> 'a GeoRaster_scheme \<Rightarrow> 'a GeoRaster_scheme result" where
  "band_step st (OpSetGain g) b = Inr (SetGain g b)"
| "band_step st (OpSetOffset off) b = Inr (SetOffset off b)"
| "band_step st (OpSetNoData v) b = Inr (SetNoData v b)"
| "band_step st (OpAddFunction f) b = Inr (AddFunction f b)"
| "band_step st (OpCopy f) b = Inr (GeoRaster_copy b f)"
| "band_step st OpComputeStats b = ebind (ComputeStats st b) (\<lambda>r. Inr (fst r))"

definition band_run :: "store \<Rightarrow> band_op list \<Rightarrow> 'a GeoRaster_scheme \<Rightarrow> 'a GeoRaster_scheme result" where
  "band_run st ops b = fold_err (band_step st) ops b"

text \<open>The cache invariant: a valid cache holds what the two passes compute now.\<close>

definition cache_ok :: "store \<Rightarrow> 'a GeoRaster_scheme \<Rightarrow> bool" where
  "cache_ok st b \<longleftrightarrow> (ValidStats b \<longrightarrow> compute_fresh st b = Inr (StatsCache b))"

section \<open>The passes in closed form\<close>

lemma fold_pass1:
  "fold (pass1_pixel nd) xs a =
     a\<lparr>p1_count := p1_count a + length (filter (\<lambda>v. v \<noteq> nd) xs),
       p1_total := p1_total a + sum_list (filter (\<lambda>v. v \<noteq> nd) xs),
       p1_min := fold min (filter (\<lambda>v. v \<noteq> nd) xs) (p1_min a),
       p1_max := fold max (filter (\<lambda>v. v \<noteq> nd) xs) (p1_max a)\<rparr>"
proof (induction xs arbitrary: a)
  case Nil
  then show ?case by simp
next
  case (Cons x xs)
  have mx: "(if x > m then x else m) = max x m" and mn: "(if x < m then x else m) = min x m"
    for m :: real by auto
  show ?case using Cons by (simp add: pass1_pixel_def mx mn add.assoc)
qed

lemma fold_pass2_Fin:
  "fold (pass2_pixel nd (Fin m)) xs (Fin s2, Fin s3) =
     (Fin (s2 + (\<Sum>v\<leftarrow>filter (\<lambda>v. v \<noteq> nd) xs. (v - m) ^ 2)),
      Fin (s3 + (\<Sum>v\<leftarrow>filter (\<lambda>v. v \<noteq> nd) xs. (v - m) ^ 3)))"
proof (induction xs arbitrary: s2 s3)
  case Nil
  then show ?case by simp
next
  case (Cons x xs)
  then show ?case
    by (simp add: pass2_pixel_def fsub_Fin power2_eq_square power3_eq_cube add.assoc)
qed

lemma fold_pass2_no_valid:
  "filter (\<lambda>v. v \<noteq> nd) xs = [] \<Longrightarrow> fold (pass2_pixel nd mean) xs t = t"
  by (induction xs arbitrary: t) (simp_all add: pass2_pixel_def split: if_splits)

text \<open>A zero sum of squared deviations leaves every value at the mean.\<close>

lemma third_moment_zero:
  fixes ws :: "real list"
  assumes "(\<Sum>v\<leftarrow>ws. (v - m) ^ 2) = 0"
  shows "(\<Sum>v\<leftarrow>ws. (v - m) ^ 3) = 0"
proof -
  have "\<forall>x\<in>set (map (\<lambda>v. (v - m) ^ 2) ws). x = 0"
    using assms by (subst sum_list_nonneg_eq_0_iff [symmetric]) auto
  then have "\<forall>v\<in>set ws. v = m" by auto
  then show ?thesis by (induction ws) simp_all
qed

lemma fold_min_init: "fold min ws lo = (if ws = [] then lo else min lo (Min (set ws)))"
  for ws :: "real list"
  using Min.set_eq_fold [of lo ws, symmetric] by (simp add: Min_insert)

lemma fold_max_init: "fold max ws hi = (if ws = [] then hi else max hi (Max (set ws)))"
  for ws :: "real list"
  using Max.set_eq_fold [of hi ws, symmetric] by (simp add: Max_insert)

lemma sum_mset_mset_map: "(\<Sum>v\<in>#mset ws. f v) = (\<Sum>v\<leftarrow>ws. f v)"
  by (metis mset_map sum_mset_sum_list)

text \<open>
  The code's two passes and its finishing arithmetic, on any buffer, give the
  statistics of the multiset of its valid values.
\<close>

lemma two_pass_stats_of:
  fixes xs :: "real list" and nd lo hi :: real
  defines "a \<equiv> fold (pass1_pixel nd) xs \<lparr>p1_count = 0, p1_total = 0, p1_min = lo, p1_max = hi\<rparr>"
  defines "mean \<equiv> fdiv (Fin (p1_total a)) (Fin (real (p1_count a)))"
  shows "stats_finish a mean (fold (pass2_pixel nd mean) xs (Fin 0, Fin 0)) =
           stats_of lo hi (valid_values nd xs)"
proof -
  define ws where "ws = filter (\<lambda>v. v \<noteq> nd) xs"
  have M: "valid_values nd xs = mset ws" by (simp add: valid_values_def ws_def)
  have a: "a = \<lparr>p1_count = length ws, p1_total = sum_list ws,
                p1_min = fold min ws lo, p1_max = fold max ws hi\<rparr>"
    by (simp add: a_def fold_pass1 ws_def)
  show ?thesis
  proof (cases "ws = []")
    case True
    then have "mean = NaN" by (simp add: mean_def a fdiv_zero_zero)
    moreover have "fold (pass2_pixel nd mean) xs (Fin 0, Fin 0) = (Fin 0, Fin 0)"
      using True by (simp add: fold_pass2_no_valid ws_def)
    ultimately show ?thesis
      using True by (simp add: stats_finish_def stats_of_def a M Let_def fdiv_zero_zero)
  next
    case False
    define n where "n = real (length ws)"
    define m where "m = sum_list ws / n"
    define var where "var = (\<Sum>v\<leftarrow>ws. (v - m) ^ 2) / n"
    define m3 where "m3 = (\<Sum>v\<leftarrow>ws. (v - m) ^ 3) / n"
    have n0: "n > 0" using False by (simp add: n_def)
    have mean: "mean = Fin m" using n0 by (simp add: mean_def a m_def n_def)
    have t: "fold (pass2_pixel nd mean) xs (Fin 0, Fin 0) =
               (Fin (\<Sum>v\<leftarrow>ws. (v - m) ^ 2), Fin (\<Sum>v\<leftarrow>ws. (v - m) ^ 3))"
      by (simp add: mean fold_pass2_Fin ws_def)
    have "0 \<le> (\<Sum>v\<leftarrow>ws. (v - m) ^ 2)" by (induction ws) simp_all
    with n0 have var0: "0 \<le> var" by (simp add: var_def)
    have skew: "fdiv (Fin m3) (Fin (sqrt (var * var * var))) =
                  (if var = 0 then NaN else Fin (m3 / sqrt (var ^ 3)))"
    proof (cases "var = 0")
      case True
      then have "m3 = 0" using n0 third_moment_zero [of m ws] by (simp add: var_def m3_def)
      with True show ?thesis by (simp add: fdiv_zero_zero)
    next
      case False
      with var0 have "0 < sqrt (var * var * var)" by simp
      with False show ?thesis by (simp add: power3_eq_cube)
    qed
    have h1: "fdiv (Fin (\<Sum>v\<leftarrow>ws. (v - m) ^ 2)) (Fin n) = Fin var"
      and h5: "fdiv (Fin (\<Sum>v\<leftarrow>ws. (v - m) ^ 3)) (Fin n) = Fin m3"
      using n0 by (simp_all add: var_def m3_def)
    have h2: "fsqrt (Fin var) = Fin (sqrt var)" using var0 by simp
    have "0 \<le> var * var * var" using var0 by simp
    then have h4: "fsqrt (fmul (fmul (Fin var) (Fin var)) (Fin var)) = Fin (sqrt (var * var * var))"
      by simp
    have fin: "stats_finish a mean (Fin (\<Sum>v\<leftarrow>ws. (v - m) ^ 2), Fin (\<Sum>v\<leftarrow>ws. (v - m) ^ 3)) =
       \<lparr>smin = min lo (Min (set ws)), smax = max hi (Max (set ws)), smean = Fin m,
        sstdev = Fin (sqrt var), sskew = (if var = 0 then NaN else Fin (m3 / sqrt (var ^ 3))),
        scount = length ws\<rparr>"
      using False
      by (simp add: stats_finish_def a mean fold_min_init fold_max_init n_def [symmetric]
                    h1 h2 h4 h5 skew del: fdiv.simps fsqrt.simps fmul.simps)
    have rhs: "stats_of lo hi (mset ws) =
       \<lparr>smin = min lo (Min (set ws)), smax = max hi (Max (set ws)), smean = Fin m,
        sstdev = Fin (sqrt var), sskew = (if var = 0 then NaN else Fin (m3 / sqrt (var ^ 3))),
        scount = length ws\<rparr>"
      using False
      by (simp add: stats_of_def Let_def sum_mset_mset_map sum_mset_sum_list
                    n_def m_def var_def m3_def)
    show ?thesis by (simp only: t fin M rhs)
  qed
qed

section \<open>The streaming code refines the specification\<close>

lemma compute_fresh_refines:
  assumes v: "valid_chunking b" and ok: "raster_values st b = Inr vs"
  shows "compute_fresh st b =
           Inr (stats_of (MaxValue b) (MinValue b) (valid_values (NoDataValue b) vs))"
proof -
  have "valid_values (NoDataValue b) (chunk_values st b) = valid_values (NoDataValue b) vs"
    using mset_chunk_values [OF v ok] by (simp add: valid_values_def)
  then show ?thesis
    using two_pass_stats_of [of "NoDataValue b" "chunk_values st b" "MaxValue b" "MinValue b"]
    by (simp add: compute_fresh_def chunk_loop_readable [OF v ok] pass1_init_def Let_def)
qed

lemma ComputeStats_fresh:
  assumes "\<not> ValidStats b" and "compute_fresh st b = Inr s"
  shows "ComputeStats st b = Inr (b\<lparr>ValidStats := True, StatsCache := s\<rparr>, s)"
  using assms by (simp add: ComputeStats_def)

lemma stats_of_empty: "stats_of lo hi {#} =
  \<lparr>smin = lo, smax = hi, smean = NaN, sstdev = NaN, sskew = NaN, scount = 0\<rparr>"
  by (simp add: stats_of_def)

text \<open>
  The two passes read the band's pixels, type, no-data value and functions,
  never the cache: refilling or dropping it does not change what they compute.
\<close>

lemma compute_fresh_same:
  assumes "same_pixels b c" and "DataType b = DataType c"
  shows "compute_fresh st b = compute_fresh st c"
  unfolding compute_fresh_def same_pixels_reads(4) [OF assms(1)]
  using assms by (simp add: pass1_init_def MaxValue_def MinValue_def same_pixels_def)

lemma compute_fresh_cache_update [simp]:
  "compute_fresh st (b\<lparr>ValidStats := x, StatsCache := s\<rparr>) = compute_fresh st b"
  "compute_fresh st (b\<lparr>ValidStats := x\<rparr>) = compute_fresh st b"
  by (simp_all add: compute_fresh_same)


lemma band_step_cache_ok:
  assumes "cache_ok st b" and "band_step st op b = Inr b'"
  shows "cache_ok st b'"
proof (cases op)
  case OpComputeStats
  show ?thesis
  proof (cases "ValidStats b")
    case True
    with assms OpComputeStats show ?thesis by (simp add: ComputeStats_def)
  next
    case False
    with assms OpComputeStats show ?thesis by (auto simp: ComputeStats_def cache_ok_def)
  qed
next
  case (OpCopy f)
  with assms show ?thesis
    by (auto simp: GeoRaster_copy_def AddFunction_def cache_ok_def)
qed (use assms in \<open>auto simp: cache_ok_def SetGain_def SetOffset_def SetNoData_def
                                 AddFunction_def\<close>)

lemma band_run_cache_ok:
  "cache_ok st b \<Longrightarrow> band_run st ops b = Inr b' \<Longrightarrow> cache_ok st b'"
proof (induction ops arbitrary: b)
  case Nil
  then show ?case by (simp add: band_run_def)
next
  case (Cons op ops)
  then obtain c where c: "band_step st op b = Inr c" and r: "band_run st ops c = Inr b'"
    by (auto simp: band_run_def)
  from Cons.prems(1) c have "cache_ok st c" by (rule band_step_cache_ok)
  from this r show ?case by (rule Cons.IH)
qed

section \<open>Properties of ComputeStats\<close>

text \<open>
  C1. On a band whose cache is not valid and whose pixels can all be read,
  \<open>ComputeStats\<close> returns, and caches, exactly the statistics of the multiset
  of the pixel values that differ from the no-data value: the streaming
  two-pass computation over the tiles refines the one-shot specification.
\<close>

theorem ComputeStats_refines:
  assumes "valid_chunking b" and "raster_values st b = Inr vs" and "\<not> ValidStats b"
  shows "ComputeStats st b =
    Inr (b\<lparr>ValidStats := True,
            StatsCache := stats_of (MaxValue b) (MinValue b) (valid_values (NoDataValue b) vs)\<rparr>,
         stats_of (MaxValue b) (MinValue b) (valid_values (NoDataValue b) vs))"
  using assms by (simp add: ComputeStats_fresh compute_fresh_refines)

theorem ComputeStats_refines_witness:
  "valid_chunking ex_band \<and> raster_values (ex_store [[200, 150]]) ex_band = Inr [400, 300] \<and>
   \<not> ValidStats ex_band \<and>
   ComputeStats (ex_store [[200, 150]]) ex_band =
     Inr (ex_band\<lparr>ValidStats := True, StatsCache := stats_of 255 0 {#400, 300#}\<rparr>,
          stats_of 255 0 {#400, 300#})"
proof -
  have r: "raster_values (ex_store [[200, 150]]) ex_band = Inr [400, 300]"
    using raster_values_ex_band [of 200 150] by simp
  have "valid_values (NoDataValue ex_band) [400, 300] = {#400, 300#}"
    by (simp add: valid_values_def ex_band_def)
  moreover have "MaxValue ex_band = 255" "MinValue ex_band = 0" "\<not> ValidStats ex_band"
    by (simp_all add: MaxValue_def MinValue_def ex_band_def)
  ultimately show ?thesis
    using ComputeStats_refines [OF valid_chunking_ex_band r] valid_chunking_ex_band r by simp
qed


lemma ComputeStats_readable_fresh:
  assumes "valid_chunking b" and "raster_values st b = Inr vs" and "\<not> ValidStats b"
    and "ComputeStats st b = Inr (b', s)"
  shows "s = stats_of (MaxValue b) (MinValue b) (valid_values (NoDataValue b) vs)"
  using assms by (simp add: ComputeStats_def compute_fresh_refines)

lemma valid_values_constant:
  assumes "\<forall>v\<in>set vs. v = c" and "c \<noteq> nd"
  shows "valid_values nd vs = replicate_mset (length vs) c"
proof -
  have f: "filter (\<lambda>v. v \<noteq> nd) vs = vs" using assms by (auto intro: filter_True)
  have r: "replicate (length vs) c = vs" using assms(1) by (simp add: replicate_length_same)
  have "valid_values nd vs = mset vs" by (simp only: valid_values_def f flip: mset_filter)
  also have "\<dots> = mset (replicate (length vs) c)" using r by simp
  also have "\<dots> = replicate_mset (length vs) c" by simp
  finally show ?thesis .
qed

lemma stats_of_replicate:
  assumes "0 < n"
  shows "stats_of lo hi (replicate_mset n c) =
    \<lparr>smin = min lo c, smax = max hi c, smean = Fin c, sstdev = Fin 0, sskew = NaN, scount = n\<rparr>"
proof -
  have m: "sum_mset (replicate_mset n c) / real n = c" using assms by simp
  have z: "(\<Sum>v\<in>#replicate_mset n c. (v - c) ^ 2) = 0" by simp
  have s: "set_mset (replicate_mset n c) = {c}" "replicate_mset n c \<noteq> {#}"
    using assms by simp_all
  show ?thesis unfolding stats_of_def Let_def m z s using assms by simp
qed

text \<open>
  C3. A readable band none of whose pixels is valid gets the degenerate
  snapshot: count 0, NaN mean, deviation and skewness, and the minimum and
  maximum left at their initial sentinels \<open>MaxValue()\<close> and \<open>MinValue()\<close>.
\<close>

theorem ComputeStats_no_valid_pixels:
  assumes "valid_chunking b" and "raster_values st b = Inr vs" and "\<not> ValidStats b"
    and "\<forall>v\<in>set vs. v = NoDataValue b" and "ComputeStats st b = Inr (b', s)"
  shows "scount s = 0 \<and> smean s = NaN \<and> sstdev s = NaN \<and> sskew s = NaN \<and>
         smin s = MaxValue b \<and> smax s = MinValue b"
proof -
  have "filter (\<lambda>v. v \<noteq> NoDataValue b) vs = []" using assms(4) by (simp add: filter_empty_conv)
  then have "valid_values (NoDataValue b) vs = {#}" by (simp add: valid_values_def flip: mset_filter)
  then show ?thesis using ComputeStats_readable_fresh [OF assms(1,2,3,5)] by (simp add: stats_of_empty)
qed

theorem ComputeStats_no_valid_pixels_witness:
  "valid_chunking ex_band \<and> raster_values (ex_store [[0, 0]]) ex_band = Inr [0, 0] \<and>
   \<not> ValidStats ex_band \<and> NoDataValue ex_band = 0 \<and>
   ComputeStats (ex_store [[0, 0]]) ex_band =
     Inr (ex_band\<lparr>ValidStats := True, StatsCache := stats_of 255 0 {#}\<rparr>, stats_of 255 0 {#}) \<and>
   scount (stats_of 255 0 {#}) = 0 \<and> smean (stats_of 255 0 {#}) = NaN \<and>
   sstdev (stats_of 255 0 {#}) = NaN \<and> sskew (stats_of 255 0 {#}) = NaN \<and>
   smin (stats_of 255 0 {#}) = MaxValue ex_band \<and> smax (stats_of 255 0 {#}) = MinValue ex_band"
proof -
  have r: "raster_values (ex_store [[0, 0]]) ex_band = Inr [0, 0]"
    using raster_values_ex_band [of 0 0] by simp
  have e: "\<not> ValidStats ex_band" "MaxValue ex_band = 255" "MinValue ex_band = 0"
    "valid_values (NoDataValue ex_band) [0, 0] = {#}" "\<forall>v\<in>set [0, 0]. v = NoDataValue ex_band"
    "NoDataValue ex_band = 0"
    by (simp_all add: ex_band_def MaxValue_def MinValue_def valid_values_def)
  have c: "ComputeStats (ex_store [[0, 0]]) ex_band =
     Inr (ex_band\<lparr>ValidStats := True, StatsCache := stats_of 255 0 {#}\<rparr>, stats_of 255 0 {#})"
    using e by (simp add: ComputeStats_fresh compute_fresh_refines [OF valid_chunking_ex_band r])
  show ?thesis
    using ComputeStats_no_valid_pixels [OF valid_chunking_ex_band r e(1) e(5) c] c r e
      valid_chunking_ex_band by simp
qed

text \<open>
  C4. On a readable band whose valid pixels all hold the same value \<open>c\<close>,
  \<open>ComputeStats\<close> reports mean \<open>c\<close>, deviation 0 and a NaN skewness (the third
  moment is divided by a zero deviation cubed).
\<close>

theorem ComputeStats_constant_band:
  assumes "valid_chunking b" and "raster_values st b = Inr vs" and "\<not> ValidStats b"
    and "vs \<noteq> []" and "\<forall>v\<in>set vs. v = c" and "c \<noteq> NoDataValue b"
    and "ComputeStats st b = Inr (b', s)"
  shows "smean s = Fin c \<and> sstdev s = Fin 0 \<and> sskew s = NaN \<and> scount s = length vs"
  using ComputeStats_readable_fresh [OF assms(1,2,3,7)] valid_values_constant [OF assms(5,6)]
    stats_of_replicate [of "length vs"] assms(4) by simp

theorem ComputeStats_constant_band_witness:
  "valid_chunking ex_band \<and> raster_values (ex_store [[7, 7]]) ex_band = Inr [14, 14] \<and>
   \<not> ValidStats ex_band \<and> [14::real, 14] \<noteq> [] \<and> 14 \<noteq> NoDataValue ex_band \<and>
   ComputeStats (ex_store [[7, 7]]) ex_band =
     Inr (ex_band\<lparr>ValidStats := True, StatsCache := stats_of 255 0 {#14, 14#}\<rparr>,
          stats_of 255 0 {#14, 14#}) \<and>
   smean (stats_of 255 0 {#14, 14#}) = Fin 14 \<and> sstdev (stats_of 255 0 {#14, 14#}) = Fin 0 \<and>
   sskew (stats_of 255 0 {#14, 14#}) = NaN"
proof -
  have r: "raster_values (ex_store [[7, 7]]) ex_band = Inr [14, 14]"
    using raster_values_ex_band [of 7 7] by simp
  have e: "\<not> ValidStats ex_band" "MaxValue ex_band = 255" "MinValue ex_band = 0"
    "valid_values (NoDataValue ex_band) [14, 14] = {#14, 14#}" "(14::real) \<noteq> NoDataValue ex_band"
    by (simp_all add: ex_band_def MaxValue_def MinValue_def valid_values_def)
  have c: "ComputeStats (ex_store [[7, 7]]) ex_band =
     Inr (ex_band\<lparr>ValidStats := True, StatsCache := stats_of 255 0 {#14, 14#}\<rparr>,
          stats_of 255 0 {#14, 14#})"
    using e by (simp add: ComputeStats_fresh compute_fresh_refines [OF valid_chunking_ex_band r])
  have "\<forall>v\<in>set [14, 14]. v = (14::real)" by simp
  from ComputeStats_constant_band [OF valid_chunking_ex_band r e(1) _ this e(5) c]
  show ?thesis using c r e valid_chunking_ex_band by simp
qed

text \<open>
  C5. The minimum and maximum \<open>ComputeStats\<close> reports are those of the valid
  values clipped by the initial sentinels: \<open>min(MaxValue(), true minimum)\<close> and
  \<open>max(MinValue(), true maximum)\<close>.  When gain or offset move every value
  beyond the data type's range the reported minimum is the sentinel, not a
  pixel value.
\<close>

theorem ComputeStats_min_max_sentinels:
  assumes "valid_chunking b" and "raster_values st b = Inr vs" and "\<not> ValidStats b"
    and "valid_values (NoDataValue b) vs \<noteq> {#}" and "ComputeStats st b = Inr (b', s)"
  shows "smin s = min (MaxValue b) (Min (set_mset (valid_values (NoDataValue b) vs))) \<and>
         smax s = max (MinValue b) (Max (set_mset (valid_values (NoDataValue b) vs)))"
  using ComputeStats_readable_fresh [OF assms(1,2,3,5)] assms(4)
  by (simp add: stats_of_def Let_def)

theorem ComputeStats_min_max_sentinels_witness:
  "valid_chunking ex_band \<and> raster_values (ex_store [[200, 150]]) ex_band = Inr [400, 300] \<and>
   \<not> ValidStats ex_band \<and> valid_values (NoDataValue ex_band) [400, 300] \<noteq> {#} \<and>
   ComputeStats (ex_store [[200, 150]]) ex_band =
     Inr (ex_band\<lparr>ValidStats := True, StatsCache := stats_of 255 0 {#400, 300#}\<rparr>,
          stats_of 255 0 {#400, 300#}) \<and>
   smin (stats_of 255 0 {#400, 300#}) = 255 \<and> smax (stats_of 255 0 {#400, 300#}) = 400"
proof -
  have r: "raster_values (ex_store [[200, 150]]) ex_band = Inr [400, 300]"
    using raster_values_ex_band [of 200 150] by simp
  have e: "\<not> ValidStats ex_band" "MaxValue ex_band = 255" "MinValue ex_band = 0"
    "valid_values (NoDataValue ex_band) [400, 300] = {#400, 300#}"
    by (simp_all add: ex_band_def MaxValue_def MinValue_def valid_values_def)
  have c: "ComputeStats (ex_store [[200, 150]]) ex_band =
     Inr (ex_band\<lparr>ValidStats := True, StatsCache := stats_of 255 0 {#400, 300#}\<rparr>,
          stats_of 255 0 {#400, 300#})"
    using e by (simp add: ComputeStats_fresh compute_fresh_refines [OF valid_chunking_ex_band r])
  have ne: "valid_values (NoDataValue ex_band) [400, 300] \<noteq> {#}" using e(4) by simp
  from ComputeStats_min_max_sentinels [OF valid_chunking_ex_band r e(1) ne c]
  show ?thesis using c r e ne valid_chunking_ex_band by simp
qed

text \<open>
  C6. The two passes compare every pixel with \<open>NoDataValue()\<close> whether or not
  the band declares a no-data value: the result does not depend on the
  \<open>_NoData\<close> flag.
\<close>

theorem compute_fresh_ignores_NoData_flag:
  "compute_fresh st (b\<lparr>NoData := True\<rparr>) = compute_fresh st (b\<lparr>NoData := False\<rparr>)"
proof -
  have "compute_fresh st (b\<lparr>NoData := f\<rparr>) = compute_fresh st b" for f
    by (rule compute_fresh_same) simp_all
  then show ?thesis by simp
qed

text \<open>
  C7. Starting from a band whose cache is consistent with the store (for
  instance a fresh band, whose cache is not valid), after any sequence of
  setter calls, copies with a function and \<open>ComputeStats\<close> calls, the snapshot
  \<open>ComputeStats\<close> returns, from the cache or not, is what the two passes compute
  on the current pixels.
\<close>

theorem ComputeStats_cache_sound:
  assumes "cache_ok st b" and "band_run st ops b = Inr b'"
    and "ComputeStats st b' = Inr (b'', s)"
  shows "compute_fresh st b' = Inr s"
proof -
  have ok: "cache_ok st b'" using assms(1,2) by (rule band_run_cache_ok)
  show ?thesis
  proof (cases "ValidStats b'")
    case True
    with assms(3) ok show ?thesis by (auto simp: ComputeStats_def cache_ok_def)
  next
    case False
    with assms(3) show ?thesis by (auto simp: ComputeStats_def)
  qed
qed

theorem ComputeStats_cache_sound_witness:
  "\<not> ValidStats ex_band \<and>
   band_run (ex_store [[200, 150]]) [OpComputeStats, OpComputeStats] ex_band =
     Inr (ex_band\<lparr>ValidStats := True, StatsCache := stats_of 255 0 {#400, 300#}\<rparr>) \<and>
   ComputeStats (ex_store [[200, 150]])
       (ex_band\<lparr>ValidStats := True, StatsCache := stats_of 255 0 {#400, 300#}\<rparr>) =
     Inr (ex_band\<lparr>ValidStats := True, StatsCache := stats_of 255 0 {#400, 300#}\<rparr>,
          stats_of 255 0 {#400, 300#}) \<and>
   compute_fresh (ex_store [[200, 150]])
       (ex_band\<lparr>ValidStats := True, StatsCache := stats_of 255 0 {#400, 300#}\<rparr>) =
     Inr (stats_of 255 0 {#400, 300#})"
proof -
  have r: "raster_values (ex_store [[200, 150]]) ex_band = Inr [400, 300]"
    using raster_values_ex_band [of 200 150] by simp
  have e: "\<not> ValidStats ex_band" "MaxValue ex_band = 255" "MinValue ex_band = 0"
    "valid_values (NoDataValue ex_band) [400, 300] = {#400, 300#}"
    by (simp_all add: ex_band_def MaxValue_def MinValue_def valid_values_def)
  have f: "compute_fresh (ex_store [[200, 150]]) ex_band = Inr (stats_of 255 0 {#400, 300#})"
    using e by (simp add: compute_fresh_refines [OF valid_chunking_ex_band r])
  have ok: "cache_ok (ex_store [[200, 150]]) ex_band" using e(1) by (simp add: cache_ok_def)
  have run: "band_run (ex_store [[200, 150]]) [OpComputeStats, OpComputeStats] ex_band =
     Inr (ex_band\<lparr>ValidStats := True, StatsCache := stats_of 255 0 {#400, 300#}\<rparr>)"
    using e(1) f by (simp add: band_run_def ComputeStats_def)
  have c: "ComputeStats (ex_store [[200, 150]])
       (ex_band\<lparr>ValidStats := True, StatsCache := stats_of 255 0 {#400, 300#}\<rparr>) =
     Inr (ex_band\<lparr>ValidStats := True, StatsCache := stats_of 255 0 {#400, 300#}\<rparr>,
          stats_of 255 0 {#400, 300#})"
    by (simp add: ComputeStats_def)
  show ?thesis using ComputeStats_cache_sound [OF ok run c] e(1) run c by simp
qed

section \<open>No run of band operations gets stuck\<close>

lemma ComputeStats_readable:
  assumes "valid_chunking b" and "raster_values st b = Inr vs"
  shows "\<exists>b' s. ComputeStats st b = Inr (b', s) \<and> ValidStats b'"
  using assms by (cases "ValidStats b") (auto simp: ComputeStats_def compute_fresh_refines)

end
