(* ===== verification/Histogram.thy ===== *)
theory Histogram
  imports Stats
begin

text \<open>
  HistogramEngine and PercentileEstimator: \<open>GeoRaster::Histogram\<close> (lines
  143--163) and \<open>GeoRaster::Percentile\<close> (lines 127--140).  \<open>Histogram\<close>
  takes the range from \<open>ComputeStats\<close>, counts each valid pixel into bin
  \<open>(unsigned int)((x - min) * bins / (max - min))\<close> with no clamping, divides
  by the number of counted pixels and optionally forms prefix sums.  The cast
  and the write \<open>hist[i]++\<close> are where C++ leaves behaviour undefined (a cast
  of NaN, a write past the buffer); both are error values here.
  \<open>Percentile\<close> scales the cumulative histogram to percent, returns the
  minimum at \<open>p = 0\<close> and the maximum at \<open>p = 99\<close>, and otherwise scans for
  the first bin that reaches \<open>p\<close> and interpolates on an axis of \<open>bins\<close>
  points from the minimum to the maximum (\<open>CImg::linear_atX\<close>, a library
  function modelled from its documented behaviour: clamp the position to the
  axis, then interpolate linearly).
\<close>

section \<open>Histogram\<close>

text \<open>\<open>(unsigned int)( (*ptr-stats(0))*bins / (stats(1)-stats(0)) )\<close>\<close>

definition bin_index :: "real \<Rightarrow> real \<Rightarrow> nat \<Rightarrow> real \<Rightarrow> nat result" where
  "bin_index lo hi bins v = uint_of_double (fdiv (Fin ((v - lo) * real bins)) (Fin (hi - lo)))"

text \<open>Body of the counting loop (lines 153--156): the buffer and \<open>numpixels\<close>.\<close>

definition hist_pixel ::
  "real \<Rightarrow> real \<Rightarrow> real \<Rightarrow> nat \<Rightarrow> real \<Rightarrow> real list \<times> nat \<Rightarrow> (real list \<times> nat) result" where
  "hist_pixel nd lo hi bins v hn =
     (if v \<noteq> nd then
        ebind (bin_index lo hi bins v) (\<lambda>i.
          if i < length (fst hn) then Inr ((fst hn)[i := fst hn ! i + 1], Suc (snd hn))
          else Inl (HistBinOutOfRange i))
      else Inr hn)"

text \<open>\<open>for (int i=1;i<bins;i++) hist[i] += hist[i-1];\<close>\<close>

definition cum_loop :: "fval list \<Rightarrow> fval list" where
  "cum_loop h = foldl (\<lambda>h i. h[i := fadd (h ! i) (h ! (i - 1))]) h [1..<length h]"

definition Histogram ::
  "store \<Rightarrow> 'a GeoRaster_scheme \<Rightarrow> nat \<Rightarrow> bool \<Rightarrow> ('a GeoRaster_scheme \<times> fval list) result" where
  "Histogram st b bins cumulative =
     ebind (ComputeStats st b) (\<lambda>(b', s).
       ebind (chunk_loop_err st b (hist_pixel (NoDataValue b) (smin s) (smax s) bins)
                (replicate bins 0, 0)) (\<lambda>(h, n).
         let h' = map (\<lambda>c. fdiv (Fin c) (Fin (real n))) h
         in Inr (b', if cumulative then cum_loop h' else h')))"

section \<open>Percentile\<close>

text \<open>
  \<open>int ind(1); while(hist[ind] < p) ind++;\<close>: the read \<open>hist[ind]\<close> past the
  end of the buffer is an error.
\<close>

function pscan :: "fval list \<Rightarrow> real \<Rightarrow> nat \<Rightarrow> nat result" where
  "pscan h p i =
     (if i < length h then (if fless (h ! i) (Fin p) then pscan h p (Suc i) else Inr i)
      else Inl (ReadPastEnd i))"
  by pat_completeness auto
termination
  by (relation "measure (\<lambda>(h, p, i). length h - i)") auto

declare pscan.simps [simp del]

text \<open>
  \<open>CImg<T>::linear_atX(fx)\<close>: the position is clamped to \<open>[0, width-1]\<close>
  (NaN passes both comparisons), truncated to an index, and the two
  neighbouring entries are interpolated.
\<close>

definition linear_atX :: "real list \<Rightarrow> fval \<Rightarrow> real result" where
  "linear_atX xs fx =
     (let w = real (length xs) - 1;
          nfx = (if fless fx (Fin 0) then Fin 0 else if fless (Fin w) fx then Fin w else fx)
      in case nfx of
           Fin a \<Rightarrow>
             (let x = nat \<lfloor>a\<rfloor>; dx = a - real x; nx = (if dx > 0 then Suc x else x)
              in Inr (xs ! x + dx * (xs ! nx - xs ! x)))
         | _ \<Rightarrow> Inl InvalidCast)"

text \<open>Lines 131--139, given the snapshot and the scaled cumulative histogram.\<close>

definition percentile_from :: "Stats \<Rightarrow> fval list \<Rightarrow> real \<Rightarrow> real result" where
  "percentile_from s hist p =
     (let bins = length hist;
          interval = (smax s - smin s) / (real bins - 1);
          xaxis = map (\<lambda>i. smin s + real i * interval) [0..<bins]
      in if p = 0 then Inr (smin s)
         else if p = 99 then Inr (smax s)
         else ebind (pscan hist p 1) (\<lambda>ind.
           let xind = fdiv (fsub (Fin p) (hist ! (ind - 1))) (fsub (hist ! ind) (hist ! (ind - 1)))
           in linear_atX xaxis (fadd (Fin (real (ind - 1))) xind)))"

definition Percentile :: "store \<Rightarrow> 'a GeoRaster_scheme \<Rightarrow> real \<Rightarrow> ('a GeoRaster_scheme \<times> real) result" where
  "Percentile st b p =
     ebind (ComputeStats st b) (\<lambda>(b1, s).
       ebind (Histogram st b1 100 True) (\<lambda>(b2, h).
         ebind (percentile_from s (map (\<lambda>x. fmul x (Fin 100)) h) p) (\<lambda>r. Inr (b2, r))))"

text \<open>Proof device: the buffer after the cumulative pass has reached index \<open>k\<close>.\<close>

definition cum_partial :: "real list \<Rightarrow> nat \<Rightarrow> fval list" where
  "cum_partial xs k = map (\<lambda>i. Fin (if i < k then sum_list (take (Suc i) xs) else xs ! i)) [0..<length xs]"

text \<open>A statistics snapshot for the examples.\<close>

definition ex_stats :: Stats where
  "ex_stats = \<lparr>smin = 1, smax = 3, smean = NaN, sstdev = NaN, sskew = NaN, scount = 2\<rparr>"

section \<open>The bin index\<close>

lemma bin_index_below:
  assumes "lo < hi" and "lo \<le> v" and "v < hi" and "0 < bins" and "bins < 2 ^ 32"
  shows "\<exists>i. bin_index lo hi bins v = Inr i \<and> i < bins"
proof -
  define q where "q = (v - lo) * real bins / (hi - lo)"
  have q0: "0 \<le> q" using assms by (simp add: q_def)
  have "(v - lo) * real bins < (hi - lo) * real bins"
    using assms by (intro mult_strict_right_mono) simp_all
  then have qb: "q < real bins"
    using assms by (simp add: q_def pos_divide_less_eq mult.commute)
  have "q < 2 ^ 32" using qb assms(5) by (meson less_trans of_nat_less_numeral_power_cancel_iff)
  then have "bin_index lo hi bins v = Inr (nat \<lfloor>q\<rfloor>)"
    using q0 assms(1) by (simp add: bin_index_def q_def uint_of_double_def)
  moreover have "nat \<lfloor>q\<rfloor> < bins" using qb q0 by (simp add: nat_less_iff floor_less_iff)
  ultimately show ?thesis by blast
qed

lemma bin_index_top:
  assumes "lo < hi" and "bins < 2 ^ 32"
  shows "bin_index lo hi bins hi = Inr bins"
proof -
  have "(hi - lo) * real bins / (hi - lo) = real bins" using assms(1) by simp
  moreover have "real bins < 2 ^ 32" using assms(2) by (metis of_nat_less_numeral_power_cancel_iff)
  ultimately show ?thesis using assms(1) by (simp add: bin_index_def uint_of_double_def)
qed

lemma bin_index_flat: "bin_index c c bins c = Inl InvalidCast"
  by (simp add: bin_index_def uint_of_double_def)

section \<open>One pixel of the counting loop\<close>

lemma hist_pixel_invalid: "hist_pixel nd lo hi bins nd hn = Inr hn"
  by (simp add: hist_pixel_def)

lemma hist_pixel_below:
  assumes "v \<noteq> nd" and "lo < hi" and "lo \<le> v" and "v < hi" and "0 < bins" and "bins < 2 ^ 32"
    and "length (fst hn) = bins"
  shows "\<exists>hn'. hist_pixel nd lo hi bins v hn = Inr hn' \<and> length (fst hn') = bins"
proof -
  obtain i where "bin_index lo hi bins v = Inr i" and "i < bins"
    using bin_index_below [OF assms(2-6)] by blast
  then show ?thesis using assms(1,7) by (simp add: hist_pixel_def)
qed

lemma hist_pixel_top:
  assumes "hi \<noteq> nd" and "lo < hi" and "bins < 2 ^ 32" and "length (fst hn) = bins"
  shows "hist_pixel nd lo hi bins hi hn = Inl (HistBinOutOfRange bins)"
  using assms by (simp add: hist_pixel_def bin_index_top)

lemma hist_pixel_flat:
  assumes "c \<noteq> nd"
  shows "hist_pixel nd c c bins c hn = Inl InvalidCast"
  using assms by (simp add: hist_pixel_def bin_index_flat)

section \<open>The cumulative pass\<close>

lemma cum_loop_NaN: "cum_loop (replicate n NaN) = replicate n NaN"
proof -
  have "foldl (\<lambda>h i. h[i := fadd (h ! i) (h ! (i - 1))]) (replicate n NaN) js = replicate n NaN"
    for js
  proof (induction js rule: rev_induct)
    case Nil
    then show ?case by simp
  next
    case (snoc j js)
    then show ?case
      by (cases "j < n") (simp_all add: list_update_beyond list_eq_iff_nth_eq nth_list_update)
  qed
  then show ?thesis by (simp add: cum_loop_def)
qed

lemma cum_partial_nth:
  "i < length xs \<Longrightarrow> cum_partial xs k ! i = Fin (if i < k then sum_list (take (Suc i) xs) else xs ! i)"
  by (simp add: cum_partial_def)

lemma length_cum_partial [simp]: "length (cum_partial xs k) = length xs"
  by (simp add: cum_partial_def)

lemma cum_partial_one: "cum_partial xs (Suc 0) = map Fin xs"
proof (rule nth_equalityI)
  fix i assume "i < length (cum_partial xs (Suc 0))"
  then show "cum_partial xs (Suc 0) ! i = map Fin xs ! i"
    by (cases xs) (simp_all add: cum_partial_nth)
qed simp

lemma cum_partial_step:
  assumes "1 \<le> k" and "k < length xs"
  shows "(cum_partial xs k)[k := fadd (cum_partial xs k ! k) (cum_partial xs k ! (k - 1))] =
         cum_partial xs (Suc k)"
proof (rule nth_equalityI)
  have s: "sum_list (take (Suc k) xs) = sum_list (take k xs) + xs ! k"
    using assms(2) by (simp add: take_Suc_conv_app_nth)
  have "fadd (cum_partial xs k ! k) (cum_partial xs k ! (k - 1)) = Fin (sum_list (take (Suc k) xs))"
    using assms by (simp add: cum_partial_nth s)
  then show "(cum_partial xs k)[k := fadd (cum_partial xs k ! k) (cum_partial xs k ! (k - 1))] ! i =
             cum_partial xs (Suc k) ! i"
    if "i < length ((cum_partial xs k)[k := fadd (cum_partial xs k ! k) (cum_partial xs k ! (k - 1))])" for i
    using that by (cases "i = k") (simp_all add: cum_partial_nth)
qed simp

lemma cum_foldl_partial:
  assumes "1 \<le> k" and "k \<le> length xs"
  shows "foldl (\<lambda>h i. h[i := fadd (h ! i) (h ! (i - 1))]) (map Fin xs) [1..<k] = cum_partial xs k"
  using assms
proof (induction k rule: nat_induct_at_least)
  case base
  then show ?case by (simp add: cum_partial_one)
next
  case (Suc k)
  then show ?case using cum_partial_step [of k xs] by simp
qed

text \<open>
  C12. The cumulative pass \<open>for (int i=1;i<bins;i++) hist[i] += hist[i-1]\<close>
  computes running sums: on finite entries, entry \<open>i\<close> of the result is the
  sum of entries \<open>0..i\<close> of its input.
\<close>

theorem cum_loop_running_sums:
  "cum_loop (map Fin xs) = map (\<lambda>i. Fin (sum_list (take (Suc i) xs))) [0..<length xs]"
proof (cases xs)
  case Nil
  then show ?thesis by (simp add: cum_loop_def)
next
  case (Cons a ys)
  then have "cum_loop (map Fin xs) = cum_partial xs (length xs)"
    using cum_foldl_partial [of "length xs" xs] by (simp add: cum_loop_def)
  then show ?thesis by (simp add: cum_partial_def)
qed

section \<open>The counting loop over a band\<close>

lemma hist_fold_no_valid:
  assumes "\<And>x. x \<in> set xs \<Longrightarrow> x = nd"
  shows "fold_err (hist_pixel nd lo hi bins) xs a = Inr a"
proof -
  have "fold_err (hist_pixel nd lo hi bins) xs a = Inr (fold (\<lambda>x s. s) xs a)"
    by (rule fold_err_total) (use assms in \<open>simp add: hist_pixel_invalid\<close>)
  moreover have "fold (\<lambda>x s. s) ys a = a" for ys :: "real list" by (induction ys) simp_all
  ultimately show ?thesis by simp
qed

lemma hist_fold_flat:
  assumes "c \<in> set xs" and "c \<noteq> nd" and "\<And>x. x \<in> set xs \<Longrightarrow> x = nd \<or> x = c"
  shows "fold_err (hist_pixel nd c c bins) xs a = Inl InvalidCast"
proof (rule fold_err_Inl_inv [where P = "\<lambda>_. True" and ?x0.0 = c])
  fix x hn assume "x \<in> set xs"
  then have "x = nd \<or> x = c" by (rule assms(3))
  then show "hist_pixel nd c c bins x hn = Inl InvalidCast \<or>
             (\<exists>s'. hist_pixel nd c c bins x hn = Inr s' \<and> True)"
    using assms(2) by (auto simp: hist_pixel_invalid hist_pixel_flat)
qed (simp_all add: assms(1,2) hist_pixel_flat)

lemma hist_fold_spread:
  assumes hi: "hi \<in> set xs" "hi \<noteq> nd" and lh: "lo < hi"
    and rng: "\<And>x. x \<in> set xs \<Longrightarrow> x \<noteq> nd \<Longrightarrow> lo \<le> x \<and> x \<le> hi"
    and bins: "0 < bins" "bins < 2 ^ 32" and len: "length (fst a) = bins"
  shows "fold_err (hist_pixel nd lo hi bins) xs a = Inl (HistBinOutOfRange bins)"
proof (rule fold_err_Inl_inv [where P = "\<lambda>hn. length (fst hn) = bins" and ?x0.0 = hi])
  fix z and hn :: "real list \<times> nat"
  assume z: "z \<in> set xs" and len: "length (fst hn) = bins"
  show "hist_pixel nd lo hi bins z hn = Inl (HistBinOutOfRange bins) \<or>
        (\<exists>s'. hist_pixel nd lo hi bins z hn = Inr s' \<and> length (fst s') = bins)"
  proof (cases "z = nd")
    case True
    then show ?thesis using len by (simp add: hist_pixel_invalid)
  next
    case False
    then have "lo \<le> z" "z \<le> hi" using rng z by auto
    then show ?thesis
      using hist_pixel_below [OF False lh _ _ bins len] hist_pixel_top [OF _ lh bins(2) len] False
      by (cases "z = hi") auto
  qed
qed (use hist_pixel_top [OF hi(2) lh bins(2)] hi len in simp_all)

text \<open>
  C10. The counting loop of \<open>Histogram\<close> (lines 149--158), run over pixels
  whose valid values lie in \<open>[min, max)\<close>, succeeds, counts \<open>numpixels\<close> up by
  the number of valid pixels, keeps the buffer's length, adds exactly that
  number to the buffer's total, and adds to each bin \<open>i\<close> the number of valid
  pixels whose index \<open>(unsigned int)((x-min)*bins/(max-min))\<close> is \<open>i\<close>; pixels
  equal to the no-data value are skipped.
\<close>

theorem hist_fold_counts:
  assumes "\<forall>x\<in>set xs. x \<noteq> nd \<longrightarrow> lo \<le> x \<and> x < hi" and "lo < hi"
    and "0 < bins" and "bins < 2 ^ 32" and "length h = bins"
  shows "\<exists>h'. fold_err (hist_pixel nd lo hi bins) xs (h, n) =
                 Inr (h', n + length (filter (\<lambda>x. x \<noteq> nd) xs)) \<and>
              length h' = bins \<and> sum_list h' = sum_list h + real (length (filter (\<lambda>x. x \<noteq> nd) xs)) \<and>
              (\<forall>i<bins. h' ! i = h ! i +
                 real (length (filter (\<lambda>x. x \<noteq> nd \<and> bin_index lo hi bins x = Inr i) xs)))"
  using assms(1,5)
proof (induction xs arbitrary: h n)
  case Nil
  then show ?case by simp
next
  case (Cons x xs)
  show ?case
  proof (cases "x = nd")
    case True
    with Cons show ?thesis by (simp add: hist_pixel_invalid)
  next
    case False
    with Cons.prems have "lo \<le> x" "x < hi" by auto
    then obtain j where j: "bin_index lo hi bins x = Inr j" "j < bins"
      using bin_index_below [OF assms(2) _ _ assms(3,4)] by blast
    let ?h = "h[j := h ! j + 1]"
    have step: "hist_pixel nd lo hi bins x (h, n) = Inr (?h, Suc n)"
      using False j Cons.prems(2) by (simp add: hist_pixel_def)
    obtain h' where h': "fold_err (hist_pixel nd lo hi bins) xs (?h, Suc n) =
                 Inr (h', Suc n + length (filter (\<lambda>x. x \<noteq> nd) xs))"
        "length h' = bins" "sum_list h' = sum_list ?h + real (length (filter (\<lambda>x. x \<noteq> nd) xs))"
        "\<forall>i<bins. h' ! i = ?h ! i +
                 real (length (filter (\<lambda>x. x \<noteq> nd \<and> bin_index lo hi bins x = Inr i) xs))"
      using Cons.IH [of ?h "Suc n"] Cons.prems by auto
    have "sum_list ?h = sum_list h + 1" using j(2) Cons.prems(2) by (simp add: sum_list_update_group)
    moreover have "h' ! i = h ! i +
        real (length (filter (\<lambda>x. x \<noteq> nd \<and> bin_index lo hi bins x = Inr i) (x # xs)))"
      if "i < bins" for i
      using h'(4) that j Cons.prems(2) False by (cases "i = j") (simp_all add: nth_list_update)
    ultimately show ?thesis using h' step False by simp
  qed
qed

lemma Histogram_core:
  assumes v: "valid_chunking b" and ok: "raster_values st b = Inr vs"
    and cs: "ComputeStats st b = Inr (b', s)"
  shows "Histogram st b bins cum =
    ebind (fold_err (hist_pixel (NoDataValue b) (smin s) (smax s) bins) (chunk_values st b)
             (replicate bins 0, 0))
      (\<lambda>(h, n). let h' = map (\<lambda>c. fdiv (Fin c) (Fin (real n))) h
         in Inr (b', if cum then cum_loop h' else h'))"
  by (simp add: Histogram_def cs chunk_loop_err_readable [OF v ok])

lemma set_chunk_values:
  assumes "valid_chunking b" and "raster_values st b = Inr vs"
  shows "set (chunk_values st b) = set vs"
  using mset_chunk_values [OF assms] by (metis set_mset_mset)

lemma mem_valid_values: "x \<in># valid_values nd vs \<longleftrightarrow> x \<in> set vs \<and> x \<noteq> nd"
  by (simp add: valid_values_def)

lemma stats_of_in_range:
  assumes "M \<noteq> {#}" and "set_mset M \<subseteq> {hi..lo}"
  shows "smin (stats_of lo hi M) = Min (set_mset M) \<and> smax (stats_of lo hi M) = Max (set_mset M)"
proof -
  have "Min (set_mset M) \<in> set_mset M" "Max (set_mset M) \<in> set_mset M"
    using assms(1) by simp_all
  then have "Min (set_mset M) \<le> lo" "hi \<le> Max (set_mset M)" using assms(2) by auto
  then show ?thesis using assms(1) by (simp add: stats_of_def Let_def)
qed

lemma Histogram_outcome:
  assumes v: "valid_chunking b" and ok: "raster_values st b = Inr vs"
    and cs: "ComputeStats st b = Inr (b', stats_of (MaxValue b) (MinValue b) (valid_values (NoDataValue b) vs))"
    and rng: "set_mset (valid_values (NoDataValue b) vs) \<subseteq> {MinValue b..MaxValue b}"
    and bins: "0 < bins" "bins < 2 ^ 32"
  shows "Histogram st b bins cum =
    (if valid_values (NoDataValue b) vs = {#} then Inr (b', replicate bins NaN)
     else if card (set_mset (valid_values (NoDataValue b) vs)) = 1 then Inl InvalidCast
     else Inl (HistBinOutOfRange bins))"
proof -
  let ?nd = "NoDataValue b" and ?M = "valid_values (NoDataValue b) vs"
  let ?S = "stats_of (MaxValue b) (MinValue b) ?M" and ?xs = "chunk_values st b"
  have xs: "x \<in> set ?xs \<longleftrightarrow> x \<in> set vs" for x using set_chunk_values [OF v ok] by simp
  have H: "Histogram st b bins cum =
    ebind (fold_err (hist_pixel ?nd (smin ?S) (smax ?S) bins) ?xs (replicate bins 0, 0))
      (\<lambda>(h, n). let h' = map (\<lambda>c. fdiv (Fin c) (Fin (real n))) h
         in Inr (b', if cum then cum_loop h' else h'))"
    by (rule Histogram_core [OF v ok cs])
  show ?thesis
  proof (cases "?M = {#}")
    case True
    then have "x = ?nd" if "x \<in> set ?xs" for x
      using that xs mem_valid_values [of x ?nd vs] by auto
    then show ?thesis
      using True by (simp add: H hist_fold_no_valid stats_of_empty cum_loop_NaN Let_def)
  next
    case ne: False
    define lo where "lo = Min (set_mset ?M)"
    define hi where "hi = Max (set_mset ?M)"
    have s: "smin ?S = lo" "smax ?S = hi"
      using stats_of_in_range [OF ne rng] by (simp_all add: lo_def hi_def)
    have bnd: "lo \<le> z \<and> z \<le> hi" if "z \<in># ?M" for z
      using that by (simp add: lo_def hi_def)
    have inM: "x \<in># ?M" if "x \<in> set ?xs" "x \<noteq> ?nd" for x
      using that xs mem_valid_values [of x ?nd vs] by auto
    have hiM: "hi \<in> set ?xs" "hi \<noteq> ?nd"
      using ne xs mem_valid_values [of hi ?nd vs] by (simp_all add: hi_def)
    show ?thesis
    proof (cases "card (set_mset ?M) = 1")
      case True
      then have "lo = hi" unfolding lo_def hi_def by (metis card_1_singletonE Max_singleton Min_singleton)
      then have "x = ?nd \<or> x = hi" if "x \<in> set ?xs" for x
        using that inM bnd by fastforce
      then show ?thesis
        using ne True hist_fold_flat [OF hiM] by (simp add: H s \<open>lo = hi\<close>)
    next
      case False
      have "lo \<noteq> hi"
      proof
        assume "lo = hi"
        then have "set_mset ?M = {hi}" using bnd ne hiM inM by fastforce
        with False show False by simp
      qed
      then have lh: "lo < hi" using bnd hiM inM by fastforce
      have "fold_err (hist_pixel ?nd lo hi bins) ?xs (replicate bins 0, 0) = Inl (HistBinOutOfRange bins)"
        using hist_fold_spread [OF hiM lh _ bins] inM bnd by simp
      then show ?thesis using ne False by (simp add: H s)
    qed
  qed
qed

section \<open>The percentile scan and its interpolation\<close>

lemma linear_atX_NaN: "linear_atX xs NaN = Inl InvalidCast"
  by (simp add: linear_atX_def)

section \<open>Percentile on a band\<close>

lemma pscan_NaN: "Suc 0 < n \<Longrightarrow> pscan (replicate n NaN) p (Suc 0) = Inr (Suc 0)"
  by (simp add: pscan.simps)

lemma percentile_from_NaN:
  assumes "2 \<le> n"
  shows "percentile_from s (replicate n NaN) p =
           (if p = 0 then Inr (smin s) else if p = 99 then Inr (smax s) else Inl InvalidCast)"
  using assms by (simp add: percentile_from_def Let_def pscan_NaN linear_atX_NaN fsub_def)

lemma cache_update_reads:
  shows "valid_chunking (b\<lparr>ValidStats := x, StatsCache := s\<rparr>) = valid_chunking b"
    and "raster_values st (b\<lparr>ValidStats := x, StatsCache := s\<rparr>) = raster_values st b"
    and "MaxValue (b\<lparr>ValidStats := x, StatsCache := s\<rparr>) = MaxValue b"
    and "MinValue (b\<lparr>ValidStats := x, StatsCache := s\<rparr>) = MinValue b"
  by (simp_all add: valid_chunking_def same_pixels_reads(3) MaxValue_def MinValue_def)

text \<open>
  C9. \<open>Percentile\<close> calls \<open>Histogram(100, true)\<close> before it tests \<open>p == 0\<close> and
  \<open>p == 99\<close>.  On a readable band whose statistics are not cached and whose
  valid values lie in the data type's range, it therefore fails for every
  \<open>p\<close>, \<open>0\<close> and \<open>99\<close> included, as soon as the band has a valid pixel (an
  out-of-range bin write when there are two distinct values, a cast of NaN
  when all are equal); only a band with no valid pixel reaches the
  boundary returns, which give the sentinels, and every other \<open>p\<close> then
  casts NaN.
\<close>

theorem Percentile_outcome:
  assumes v: "valid_chunking b" and ok: "raster_values st b = Inr vs" and nv: "\<not> ValidStats b"
    and rng: "set_mset (valid_values (NoDataValue b) vs) \<subseteq> {MinValue b..MaxValue b}"
  shows "Percentile st b p =
    (let M = valid_values (NoDataValue b) vs;
         b1 = b\<lparr>ValidStats := True, StatsCache := stats_of (MaxValue b) (MinValue b) M\<rparr>
     in if M = {#} then
          (if p = 0 then Inr (b1, MaxValue b) else if p = 99 then Inr (b1, MinValue b)
           else Inl InvalidCast)
        else if card (set_mset M) = 1 then Inl InvalidCast
        else Inl (HistBinOutOfRange 100))"
proof -
  let ?M = "valid_values (NoDataValue b) vs"
  let ?S = "stats_of (MaxValue b) (MinValue b) ?M"
  let ?b1 = "b\<lparr>ValidStats := True, StatsCache := ?S\<rparr>"
  have cs: "ComputeStats st b = Inr (?b1, ?S)"
    by (rule ComputeStats_fresh [OF nv compute_fresh_refines [OF v ok]])
  have cs1: "ComputeStats st ?b1 = Inr (?b1, stats_of (MaxValue ?b1) (MinValue ?b1)
                                              (valid_values (NoDataValue ?b1) vs))"
    by (simp add: ComputeStats_def cache_update_reads)
  have H: "Histogram st ?b1 100 True =
    (if ?M = {#} then Inr (?b1, replicate 100 NaN)
     else if card (set_mset ?M) = 1 then Inl InvalidCast else Inl (HistBinOutOfRange 100))"
    using Histogram_outcome [OF _ _ cs1, of 100 True] v ok rng by (simp add: cache_update_reads)
  show ?thesis
    by (simp add: Percentile_def cs H map_replicate percentile_from_NaN stats_of_empty Let_def)
qed

section \<open>Histogram and percentile on readable bands\<close>

lemma Histogram_fresh_outcome:
  assumes v: "valid_chunking b" and ok: "raster_values st b = Inr vs" and nv: "\<not> ValidStats b"
    and rng: "set_mset (valid_values (NoDataValue b) vs) \<subseteq> {MinValue b..MaxValue b}"
    and bins: "0 < bins" "bins < 2 ^ 32"
  shows "Histogram st b bins cum =
    (if valid_values (NoDataValue b) vs = {#}
     then Inr (b\<lparr>ValidStats := True, StatsCache := stats_of (MaxValue b) (MinValue b) {#}\<rparr>,
               replicate bins NaN)
     else if card (set_mset (valid_values (NoDataValue b) vs)) = 1 then Inl InvalidCast
     else Inl (HistBinOutOfRange bins))"
  using Histogram_outcome [OF v ok ComputeStats_fresh [OF nv compute_fresh_refines [OF v ok]] rng bins]
  by simp

lemma ex_band_facts:
  "\<not> ValidStats ex_band" "NoDataValue ex_band = 0" "MaxValue ex_band = 255" "MinValue ex_band = 0"
  by (simp_all add: ex_band_def MaxValue_def MinValue_def)

text \<open>
  C8. On a readable band whose statistics are not cached and whose valid
  values lie in the data type's range, as soon as two valid values differ
  \<open>Histogram\<close> writes bin \<open>bins\<close>, one past the end of its buffer: the pixel
  equal to the maximum gets index \<open>(max-min)*bins/(max-min) = bins\<close> and the
  index is never clamped to \<open>bins-1\<close>.
\<close>

theorem Histogram_max_pixel_out_of_range:
  assumes "valid_chunking b" and "raster_values st b = Inr vs" and "\<not> ValidStats b"
    and "set_mset (valid_values (NoDataValue b) vs) \<subseteq> {MinValue b..MaxValue b}"
    and "x \<in># valid_values (NoDataValue b) vs" and "y \<in># valid_values (NoDataValue b) vs"
    and "x \<noteq> y" and "0 < bins" and "bins < 2 ^ 32"
  shows "Histogram st b bins cum = Inl (HistBinOutOfRange bins)"
proof -
  have "card (set_mset (valid_values (NoDataValue b) vs)) \<noteq> 1"
  proof
    assume "card (set_mset (valid_values (NoDataValue b) vs)) = 1"
    then obtain z where "set_mset (valid_values (NoDataValue b) vs) = {z}" by (rule card_1_singletonE)
    with assms(5-7) show False by auto
  qed
  then show ?thesis using Histogram_fresh_outcome [OF assms(1-4,8,9)] assms(5) by auto
qed

theorem Histogram_max_pixel_out_of_range_witness:
  "Histogram (ex_store [[100, 50]]) ex_band 10 False = Inl (HistBinOutOfRange 10)"
proof -
  have r: "raster_values (ex_store [[100, 50]]) ex_band = Inr [200, 100]"
    using raster_values_ex_band [of 100 50] by simp
  have m: "valid_values 0 [200, 100] = {#200, 100#}"
    by (simp add: valid_values_def)
  show ?thesis
    by (rule Histogram_max_pixel_out_of_range [OF valid_chunking_ex_band r ex_band_facts(1), of 200 100])
       (simp_all add: m ex_band_facts)
qed

theorem hist_fold_counts_witness:
  "\<exists>h'. fold_err (hist_pixel 5 0 2 2) [0, 1, 5] ([0, 0], 0) = Inr (h', 2) \<and>
        length h' = 2 \<and> sum_list h' = 2 \<and> h' ! 0 = 1 \<and> h' ! 1 = 1"
proof -
  have b: "bin_index 0 2 2 (0::real) = Inr 0" "bin_index 0 2 2 (1::real) = Inr 1"
    by (simp_all add: bin_index_def uint_of_double_def)
  have "\<exists>h'. fold_err (hist_pixel 5 0 2 2) [0, 1, 5] ([0, 0], 0) =
                 Inr (h', 0 + length (filter (\<lambda>x. x \<noteq> 5) [0, 1, 5::real])) \<and>
              length h' = 2 \<and> sum_list h' = sum_list [0, 0] + real (length (filter (\<lambda>x. x \<noteq> 5) [0, 1, 5::real])) \<and>
              (\<forall>i<2. h' ! i = [0, 0] ! i +
                 real (length (filter (\<lambda>x. x \<noteq> 5 \<and> bin_index 0 2 2 x = Inr i) [0, 1, 5::real])))"
    by (rule hist_fold_counts) simp_all
  then obtain h' where "fold_err (hist_pixel 5 0 2 2) [0, 1, 5] ([0, 0], 0) = Inr (h', 2)"
      "length h' = 2" "sum_list h' = 2" "\<forall>i<2. h' ! i = [0, 0] ! i +
                 real (length (filter (\<lambda>x. x \<noteq> 5 \<and> bin_index 0 2 2 x = Inr i) [0, 1, 5::real]))"
    by auto
  moreover have "h' ! 0 = 1" "h' ! 1 = 1" using calculation(4) b by auto
  ultimately show ?thesis by blast
qed

text \<open>
  C11. On a readable band whose statistics are not cached, whose valid
  values lie in the data type's range and take at most one value,
  \<open>Histogram\<close> returns \<open>bins\<close> NaN entries when no pixel is valid (the division
  \<open>hist/=numpixels\<close> by zero) and fails on the cast of NaN \<open>0*bins/0\<close> when all
  valid pixels are equal.
\<close>

theorem Histogram_degenerate:
  assumes "valid_chunking b" and "raster_values st b = Inr vs" and "\<not> ValidStats b"
    and "set_mset (valid_values (NoDataValue b) vs) \<subseteq> {MinValue b..MaxValue b}"
    and "card (set_mset (valid_values (NoDataValue b) vs)) \<le> 1"
    and "0 < bins" and "bins < 2 ^ 32"
  shows "Histogram st b bins cum =
    (if valid_values (NoDataValue b) vs = {#}
     then Inr (b\<lparr>ValidStats := True, StatsCache := stats_of (MaxValue b) (MinValue b) {#}\<rparr>,
               replicate bins NaN)
     else Inl InvalidCast)"
proof (cases "valid_values (NoDataValue b) vs = {#}")
  case False
  then have "card (set_mset (valid_values (NoDataValue b) vs)) = 1"
    using assms(5) by (simp add: le_Suc_eq)
  then show ?thesis using Histogram_fresh_outcome [OF assms(1-4,6,7)] by simp
qed (use Histogram_fresh_outcome [OF assms(1-4,6,7)] in simp)

theorem Histogram_degenerate_witness:
  "Histogram (ex_store [[7, 7]]) ex_band 10 True = Inl InvalidCast"
proof -
  have r: "raster_values (ex_store [[7, 7]]) ex_band = Inr [14, 14]"
    using raster_values_ex_band [of 7 7] by simp
  have m: "valid_values 0 [14, 14] = {#14, 14#}"
    by (simp add: valid_values_def)
  show ?thesis
    using Histogram_degenerate [OF valid_chunking_ex_band r ex_band_facts(1), of 10 True]
    by (simp add: m ex_band_facts)
qed

theorem Percentile_outcome_witness:
  "Percentile (ex_store [[100, 50]]) ex_band 0 = Inl (HistBinOutOfRange 100)"
proof -
  have r: "raster_values (ex_store [[100, 50]]) ex_band = Inr [200, 100]"
    using raster_values_ex_band [of 100 50] by simp
  have m: "valid_values 0 [200, 100] = {#200, 100#}"
    by (simp add: valid_values_def)
  show ?thesis
    using Percentile_outcome [OF valid_chunking_ex_band r ex_band_facts(1), of 0]
    by (simp add: m ex_band_facts)
qed

end
