(* ===== verification/Image.thy ===== *)
theory Image
  imports Stats
begin

text \<open>
  BandCollection: \<open>GeoImage\<close> (\<open>src/GIP/gip/GeoImage.cpp\<close>), an ordered list
  of bands and a colour map from colour names to 1-based band positions.
  The colour map class \<open>Colors\<close> is declared in a header that is not among
  the sources; it is modelled from the specification (section 4.6) as an
  association list: a colour absent from it, or mapped to 0, has no band;
  \<open>Remove(n)\<close> drops the entries that point at \<open>n\<close> and leaves every other
  index as it was.  Positions are checked where C++ would read or erase
  outside the vector; those accesses are error values.
\<close>

section \<open>The colour map\<close>

type_synonym colors = "(string \<times> nat) list"

text \<open>\<open>Colors::operator[](string)\<close>: the band number of a colour, 0 when absent.\<close>

definition color_index :: "colors \<Rightarrow> string \<Rightarrow> nat" where
  "color_index cs col = (case map_of cs col of Some i \<Rightarrow> i | None \<Rightarrow> 0)"

text \<open>\<open>Colors::operator[](int)\<close>: the colour of a band number, empty when none.\<close>

definition color_name :: "colors \<Rightarrow> nat \<Rightarrow> string" where
  "color_name cs i = (case find (\<lambda>(c, j). j = i) cs of Some (c, j) \<Rightarrow> c | None \<Rightarrow> '''')"

text \<open>\<open>Colors::Remove(bandnum)\<close>: drops the entries pointing at \<open>bandnum\<close>.\<close>

definition colors_remove :: "colors \<Rightarrow> nat \<Rightarrow> colors" where
  "colors_remove cs n = filter (\<lambda>(c, j). j \<noteq> n) cs"

section \<open>The band collection\<close>

record GeoImage = GeoData +
  RasterBands :: "GeoRaster list"
  Colors :: colors

definition NumBands :: "'a GeoImage_scheme \<Rightarrow> nat" where
  "NumBands img = length (RasterBands img)"

text \<open>\<open>GeoImage::DataType\<close> (line 29): the type of the first band.\<close>

definition GeoImage_DataType :: "'a GeoImage_scheme \<Rightarrow> GDALDataType result" where
  "GeoImage_DataType img =
     (case RasterBands img of [] \<Rightarrow> Inl (BandIndexOutOfRange 0) | b # _ \<Rightarrow> Inr (DataType b))"

text \<open>\<open>GeoImage::operator[](std::string col)\<close> (lines 57--69).\<close>

definition get_band :: "'a GeoImage_scheme \<Rightarrow> string \<Rightarrow> GeoRaster result" where
  "get_band img col =
     (let index = color_index (Colors img) col
      in if index > 0 then
           (if index - 1 < length (RasterBands img) then Inr (RasterBands img ! (index - 1))
            else Inl (BandIndexOutOfRange index))
         else Inl (NoBandOfColor col))"

text \<open>\<open>GeoImage::AddBand\<close> (lines 71--77): appends; the colour map is untouched.\<close>

definition AddBand :: "GeoRaster \<Rightarrow> 'a GeoImage_scheme \<Rightarrow> 'a GeoImage_scheme" where
  "AddBand band img = img\<lparr>RasterBands := RasterBands img @ [band]\<rparr>"

text \<open>
  \<open>GeoImage::RemoveBand\<close> (lines 79--85).  The guard is \<open>bandnum <= size()\<close>
  only: \<open>bandnum = 0\<close> passes it and erases \<open>begin()-1\<close>, an error here.
\<close>

definition RemoveBand :: "nat \<Rightarrow> 'a GeoImage_scheme \<Rightarrow> 'a GeoImage_scheme result" where
  "RemoveBand bandnum img =
     (if bandnum \<le> length (RasterBands img) then
        (if bandnum = 0 then Inl (BandIndexOutOfRange 0)
         else Inr (img\<lparr>RasterBands := take (bandnum - 1) (RasterBands img) @ drop bandnum (RasterBands img),
                       Colors := colors_remove (Colors img) bandnum\<rparr>))
      else Inr img)"

text \<open>One iteration of \<open>PruneBands\<close> (lines 90--92) at band \<open>i\<close>.\<close>

definition prune_step :: "string list \<Rightarrow> nat \<Rightarrow> 'a GeoImage_scheme \<Rightarrow> 'a GeoImage_scheme result" where
  "prune_step colors i img =
     (let keep = (color_name (Colors img) i \<in> set colors)
      in if \<not> keep then RemoveBand i img else Inr img)"

text \<open>\<open>GeoImage::PruneBands\<close> (lines 87--95): \<open>for (int i=NumBands(); i>0; i--)\<close>.\<close>

definition PruneBands :: "string list \<Rightarrow> 'a GeoImage_scheme \<Rightarrow> 'a GeoImage_scheme result" where
  "PruneBands colors img = fold_err (prune_step colors) (rev [1..<Suc (NumBands img)]) img"

text \<open>
  \<open>GeoImage::ComputeStats\<close> (lines 97--100): each band fills its own cache
  (the method is \<open>const\<close>; the caches are \<open>mutable\<close>).
\<close>

definition GeoImage_ComputeStats :: "store \<Rightarrow> 'a GeoImage_scheme \<Rightarrow> 'a GeoImage_scheme result" where
  "GeoImage_ComputeStats st img =
     ebind (map_err (\<lambda>b. ebind (ComputeStats st b) (\<lambda>r. Inr (fst r))) (RasterBands img))
       (\<lambda>bs. Inr (img\<lparr>RasterBands := bs\<rparr>))"

text \<open>
  The choice of the dataset in \<open>LoadBands\<close> (lines 132--135): the first band
  of greatest \<open>XSize\<close>.
\<close>

definition largest_band :: "GeoRaster list \<Rightarrow> nat" where
  "largest_band bs =
     foldl (\<lambda>index i. if XSize (bs ! i) > XSize (bs ! index) then i else index) 0 [0..<length bs]"

text \<open>
  \<open>GeoImage::LoadBands\<close> (lines 103--140).  What GDAL opens is an input: the
  bands \<open>GeoRaster(*this, b)\<close> for the raw planes \<open>1..GetRasterCount()\<close>, and
  the bands opened from the sub-dataset names.  Without sub-datasets the raw
  bands are appended; otherwise the sub-dataset bands are appended and the
  image is re-pointed at the dataset of the chosen band (its handle, hence
  its size).
\<close>

definition LoadBands :: "GeoRaster list \<Rightarrow> GeoRaster list \<Rightarrow> 'a GeoImage_scheme \<Rightarrow> 'a GeoImage_scheme" where
  "LoadBands raw subs img =
     (if subs = [] then img\<lparr>RasterBands := RasterBands img @ raw\<rparr>
      else (let bs = RasterBands img @ subs; index = largest_band bs
            in img\<lparr>RasterBands := bs, gd_ds := gd_ds (bs ! index), XSize := XSize (bs ! index),
                   YSize := YSize (bs ! index)\<rparr>))"

text \<open>\<open>GeoImage::BandNames\<close> (lines 147--153).\<close>

definition BandNames :: "'a GeoImage_scheme \<Rightarrow> string list" where
  "BandNames img = map Description (RasterBands img)"

text \<open>
  The copy constructor (lines 11--15): the geometry and the colour map are
  copied, then each band \<open>image[i]\<close> is pushed in order.
\<close>

definition GeoImage_copy :: "'a GeoImage_scheme \<Rightarrow> 'a GeoImage_scheme" where
  "GeoImage_copy img = img\<lparr>RasterBands := map (\<lambda>i. RasterBands img ! i) [0..<NumBands img]\<rparr>"

text \<open>
  The assignment operator (lines 18--27): the geometry, then the bands
  (cleared and pushed in order), then the colour map.  The self-assignment
  test compares addresses; with values, assigning an image to itself gives
  the same result through the general path.
\<close>

definition GeoImage_assign :: "'a GeoImage_scheme \<Rightarrow> 'a GeoImage_scheme \<Rightarrow> 'a GeoImage_scheme" where
  "GeoImage_assign dst src =
     dst\<lparr>gd_ds := gd_ds src, XSize := XSize src, YSize := YSize src, chunk_w := chunk_w src,
         chunk_h := chunk_h src, RasterBands := map (\<lambda>i. RasterBands src ! i) [0..<NumBands src],
         Colors := Colors src\<rparr>"

text \<open>
  The invariant of the colour map (specification, section 3): every entry
  names a band of the collection by its 1-based position.
\<close>

definition colors_wf :: "'a GeoImage_scheme \<Rightarrow> bool" where
  "colors_wf img \<longleftrightarrow> (\<forall>(c, j)\<in>set (Colors img). 0 < j \<and> j \<le> NumBands img)"

text \<open>Examples: a one-band image over \<open>ex_band\<close>, and five bands coloured as in the specification's example.\<close>

definition ex_image :: GeoImage where
  "ex_image = \<lparr>gd_ds = 0, XSize = 2, YSize = 1, chunk_w = 1, chunk_h = 1,
     RasterBands = [ex_band], Colors = [(''red'', 1)]\<rparr>"

definition ex_five :: GeoImage where
  "ex_five = \<lparr>gd_ds = 0, XSize = 2, YSize = 1, chunk_w = 1, chunk_h = 1,
     RasterBands = map (\<lambda>i. ex_band\<lparr>band_num := i\<rparr>) [1..<6],
     Colors = [(''red'', 1), (''green'', 2), (''blue'', 3), (''nir'', 4), (''swir'', 5)]\<rparr>"

text \<open>The state of \<open>PruneBands\<close> once bands \<open>n, n-1, ..., m+1\<close> have been visited.\<close>

definition prune_state :: "string list \<Rightarrow> 'a GeoImage_scheme \<Rightarrow> nat \<Rightarrow> 'a GeoImage_scheme" where
  "prune_state keep img m =
     (let n = NumBands img; bs = RasterBands img; cs = Colors img;
          kept = (\<lambda>i. color_name cs i \<in> set keep)
      in img\<lparr>RasterBands := take m bs @ map (\<lambda>i. bs ! (i - 1)) (filter kept [Suc m..<Suc n]),
             Colors := filter (\<lambda>(c, j). \<not> (m < j \<and> j \<le> n \<and> \<not> kept j)) cs\<rparr>)"

section \<open>Copies\<close>

lemma GeoImage_copy_eq: "GeoImage_copy img = img"
  by (simp add: GeoImage_copy_def NumBands_def map_nth)

lemma GeoImage_assign_eq: "GeoImage_assign (dst :: GeoImage) src = src"
  by (simp add: GeoImage_assign_def NumBands_def map_nth)

section \<open>Lemmas on the colour map\<close>

lemma color_name_filter:
  assumes "\<And>c. P (c, j)"
  shows "color_name (filter P cs) j = color_name cs j"
  using assms by (induction cs) (auto simp: color_name_def split: prod.splits)

lemma color_index_remove:
  assumes "distinct (map fst cs)"
  shows "color_index (colors_remove cs n) c = (if color_index cs c = n then 0 else color_index cs c)"
  using assms
  by (induction cs) (auto simp: color_index_def colors_remove_def image_iff dest: map_of_SomeD split: option.splits)

section \<open>Removing and pruning bands\<close>

lemma prune_state_step:
  assumes "m < NumBands img"
  shows "prune_step keep (Suc m) (prune_state keep img (Suc m)) = Inr (prune_state keep img m)"
proof -
  let ?bs = "RasterBands img" and ?cs = "Colors img" and ?n = "NumBands img"
  let ?kept = "\<lambda>i. color_name ?cs i \<in> set keep"
  let ?f = "\<lambda>i. ?bs ! (i - 1)"
  let ?C = "\<lambda>m. filter (\<lambda>(c, j). \<not> (m < j \<and> j \<le> ?n \<and> \<not> ?kept j)) ?cs"
  have st: "prune_state keep img m =
              img\<lparr>RasterBands := take m ?bs @ map ?f (filter ?kept [Suc m..<Suc ?n]), Colors := ?C m\<rparr>"
    for m by (simp add: prune_state_def Let_def)
  have name: "color_name (Colors (prune_state keep img (Suc m))) (Suc m) = color_name ?cs (Suc m)"
    by (simp add: st color_name_filter)
  have ps: "prune_step keep (Suc m) (prune_state keep img (Suc m)) =
              (if ?kept (Suc m) then Inr (prune_state keep img (Suc m))
               else RemoveBand (Suc m) (prune_state keep img (Suc m)))"
    unfolding prune_step_def Let_def name by simp
  have up: "[Suc m..<Suc ?n] = Suc m # [Suc (Suc m)..<Suc ?n]" using assms by (simp add: upt_conv_Cons)
  have tk: "take (Suc m) ?bs = take m ?bs @ [?bs ! m]"
    using assms by (simp add: NumBands_def take_Suc_conv_app_nth)
  have js: "j = Suc m" if "m < j" "\<not> Suc m < j" for j :: nat using that by linarith
  show ?thesis
  proof (cases "?kept (Suc m)")
    case True
    have c: "?C (Suc m) = ?C m" using True by (intro filter_cong) (auto dest: js)
    have b: "take (Suc m) ?bs @ map ?f (filter ?kept [Suc (Suc m)..<Suc ?n]) =
             take m ?bs @ map ?f (filter ?kept [Suc m..<Suc ?n])"
      using True by (simp add: tk del: upt_Suc) (simp add: up del: upt_Suc)
    have "prune_state keep img (Suc m) = prune_state keep img m"
      by (simp only: st b c)
    then show ?thesis using ps True by simp
  next
    case False
    have c: "colors_remove (?C (Suc m)) (Suc m) = ?C m"
      using False assms by (simp add: colors_remove_def filter_filter) (intro filter_cong, auto dest: js)
    have b: "take m (take (Suc m) ?bs @ map ?f (filter ?kept [Suc (Suc m)..<Suc ?n])) @
             drop (Suc m) (take (Suc m) ?bs @ map ?f (filter ?kept [Suc (Suc m)..<Suc ?n])) =
             take m ?bs @ map ?f (filter ?kept [Suc m..<Suc ?n])"
      using False assms up by (simp add: NumBands_def min_def del: upt_Suc)
    have l: "Suc m \<le> length (take (Suc m) ?bs @ map ?f (filter ?kept [Suc (Suc m)..<Suc ?n]))"
      using assms by (simp add: NumBands_def)
    have "RemoveBand (Suc m) (prune_state keep img (Suc m)) = Inr (prune_state keep img m)"
      unfolding st RemoveBand_def using l b c by (simp del: upt_Suc take_append drop_append)
    then show ?thesis using ps False by simp
  qed
qed

lemma prune_state_loop:
  "m \<le> NumBands img \<Longrightarrow>
   fold_err (prune_step keep) (rev [1..<Suc m]) (prune_state keep img m) = Inr (prune_state keep img 0)"
proof (induction m)
  case 0
  then show ?case by simp
next
  case (Suc m)
  then show ?case by (simp add: prune_state_step)
qed

lemma prune_state_start: "prune_state keep img (NumBands img) = img"
proof -
  have "filter (\<lambda>(c, j). \<not> (NumBands img < j \<and> j \<le> NumBands img \<and> color_name (Colors img) j \<notin> set keep))
          (Colors img) = Colors img"
    by (induction "Colors img") auto
  then show ?thesis by (simp add: prune_state_def Let_def NumBands_def)
qed

text \<open>
  C13. \<open>PruneBands(colors)\<close> keeps, in their original order, exactly the bands
  whose colour is in \<open>colors\<close>, and drops from the colour map exactly the
  entries of the removed bands: visiting the bands from last to first never
  shifts a position it has still to visit.  The entries it keeps are left
  at their old positions.
\<close>

theorem PruneBands_result:
  "PruneBands keep img =
     Inr (img\<lparr>RasterBands := map (\<lambda>i. RasterBands img ! (i - 1))
                               (filter (\<lambda>i. color_name (Colors img) i \<in> set keep) [1..<Suc (NumBands img)]),
              Colors := filter (\<lambda>(c, j). \<not> (0 < j \<and> j \<le> NumBands img \<and>
                                  color_name (Colors img) j \<notin> set keep)) (Colors img)\<rparr>)"
  using prune_state_loop [of "NumBands img" img keep]
  by (simp add: PruneBands_def prune_state_start) (simp add: prune_state_def Let_def)

text \<open>
  C14. After \<open>RemoveBand(k)\<close>, a colour that pointed past position \<open>k\<close> is left
  pointing at its old position: its lookup returns the band that used to
  follow it, or fails at the end of the list, never the band it named.
\<close>

theorem RemoveBand_stale_lookup:
  assumes "distinct (map fst (Colors img))" and "RemoveBand k img = Inr img'"
    and "0 < k" and "k \<le> NumBands img" and "k < color_index (Colors img) c"
  shows "get_band img' c =
           (if color_index (Colors img) c < NumBands img
            then Inr (RasterBands img ! color_index (Colors img) c)
            else Inl (BandIndexOutOfRange (color_index (Colors img) c)))"
proof -
  let ?j = "color_index (Colors img) c" and ?bs = "RasterBands img"
  have img': "img' = img\<lparr>RasterBands := take (k - 1) ?bs @ drop k ?bs,
                           Colors := colors_remove (Colors img) k\<rparr>"
    using assms(2-4) by (simp add: RemoveBand_def NumBands_def)
  have idx: "color_index (colors_remove (Colors img) k) c = ?j"
    using assms(5) by (simp add: color_index_remove [OF assms(1)])
  have "(take (k - 1) ?bs @ drop k ?bs) ! (?j - 1) = ?bs ! ?j" if "?j < NumBands img"
    using that assms(3-5) by (simp add: nth_append NumBands_def min_def)
  moreover have "?j - 1 < length ?bs - 1 \<longleftrightarrow> ?j < length ?bs" using assms(3,5) by linarith
  ultimately show ?thesis
    using assms(3-5) by (simp add: get_band_def idx img' NumBands_def Let_def)
qed

theorem RemoveBand_stale_lookup_witness:
  "RemoveBand 2 ex_five =
     Inr (ex_five\<lparr>RasterBands := map (\<lambda>i. ex_band\<lparr>band_num := i\<rparr>) [1, 3, 4, 5],
                  Colors := [(''red'', 1), (''blue'', 3), (''nir'', 4), (''swir'', 5)]\<rparr>) \<and>
   get_band (ex_five\<lparr>RasterBands := map (\<lambda>i. ex_band\<lparr>band_num := i\<rparr>) [1, 3, 4, 5],
                  Colors := [(''red'', 1), (''blue'', 3), (''nir'', 4), (''swir'', 5)]\<rparr>) ''nir'' =
     Inr (ex_band\<lparr>band_num := 5\<rparr>)"
proof -
  have r: "RemoveBand 2 ex_five =
     Inr (ex_five\<lparr>RasterBands := map (\<lambda>i. ex_band\<lparr>band_num := i\<rparr>) [1, 3, 4, 5],
                  Colors := [(''red'', 1), (''blue'', 3), (''nir'', 4), (''swir'', 5)]\<rparr>)"
    by (simp add: RemoveBand_def ex_five_def colors_remove_def upt_rec)
  have f: "distinct (map fst (Colors ex_five))" "color_index (Colors ex_five) ''nir'' = 4"
    "NumBands ex_five = 5" "RasterBands ex_five ! 4 = ex_band\<lparr>band_num := 5\<rparr>"
    by (simp_all add: ex_five_def color_index_def NumBands_def upt_rec)
  show ?thesis
    using RemoveBand_stale_lookup [OF f(1) r, of "''nir''"] r f by simp
qed

section \<open>Statistics of every band\<close>

lemma map_err_exists:
  assumes "\<And>x. x \<in> set xs \<Longrightarrow> \<exists>y. f x = Inr y \<and> P x y"
  shows "\<exists>ys. map_err f xs = Inr ys \<and> list_all2 P xs ys"
  using assms
proof (induction xs)
  case Nil
  then show ?case by simp
next
  case (Cons x xs)
  obtain y where y: "f x = Inr y" "P x y" using Cons.prems by auto
  obtain ys where ys: "map_err f xs = Inr ys" "list_all2 P xs ys" using Cons by auto
  show ?case using y ys by simp
qed

lemma ComputeStats_band_fills_cache:
  assumes "valid_chunking b" and "raster_values st b = Inr vs" and "cache_ok st b"
  shows "\<exists>b' s. ComputeStats st b = Inr (b', s) \<and> ValidStats b' \<and> cache_ok st b' \<and> same_pixels b' b"
proof (cases "ValidStats b")
  case True
  then show ?thesis using assms(3) by (simp add: ComputeStats_def same_pixels_def)
next
  case False
  obtain s where "compute_fresh st b = Inr s" using compute_fresh_refines [OF assms(1,2)] by blast
  then show ?thesis using False by (simp add: ComputeStats_def cache_ok_def)
qed

text \<open>
  C15. \<open>GeoImage::ComputeStats\<close> on a collection whose bands can all be read
  and whose caches are sound succeeds, keeps the number of bands, and leaves
  every band with a valid cache that holds what a fresh computation gives,
  its pixels unchanged.
\<close>

theorem GeoImage_ComputeStats_fills_caches:
  assumes "\<forall>b\<in>set (RasterBands img). valid_chunking b \<and> (\<exists>vs. raster_values st b = Inr vs) \<and> cache_ok st b"
  shows "\<exists>img'. GeoImage_ComputeStats st img = Inr img' \<and> NumBands img' = NumBands img \<and>
           (\<forall>i<NumBands img. ValidStats (RasterBands img' ! i) \<and> cache_ok st (RasterBands img' ! i) \<and>
                              same_pixels (RasterBands img' ! i) (RasterBands img ! i))"
proof -
  let ?P = "\<lambda>b b'. ValidStats b' \<and> cache_ok st b' \<and> same_pixels b' b"
  have "\<exists>y. (\<lambda>b. ebind (ComputeStats st b) (\<lambda>r. Inr (fst r))) b = Inr y \<and> ?P b y"
    if "b \<in> set (RasterBands img)" for b
  proof -
    have "valid_chunking b \<and> (\<exists>vs. raster_values st b = Inr vs) \<and> cache_ok st b"
      using assms that by (rule bspec)
    then obtain vs where v: "valid_chunking b" and r: "raster_values st b = Inr vs"
      and c: "cache_ok st b" by blast
    obtain b' s where "ComputeStats st b = Inr (b', s)" and "?P b b'"
      using ComputeStats_band_fills_cache [OF v r c] by blast
    then show ?thesis by simp
  qed
  from map_err_exists [where P = ?P, OF this]
  obtain bs where m: "map_err (\<lambda>b. ebind (ComputeStats st b) (\<lambda>r. Inr (fst r))) (RasterBands img) = Inr bs"
      and a: "list_all2 ?P (RasterBands img) bs"
    by blast
  have "GeoImage_ComputeStats st img = Inr (img\<lparr>RasterBands := bs\<rparr>)"
    by (simp add: GeoImage_ComputeStats_def m)
  moreover have "length bs = NumBands img" using list_all2_lengthD [OF a] by (simp add: NumBands_def)
  moreover have "?P (RasterBands img ! i) (bs ! i)" if "i < NumBands img" for i
    using list_all2_nthD [OF a] that by (simp add: NumBands_def)
  ultimately show ?thesis by (intro exI [of _ "img\<lparr>RasterBands := bs\<rparr>"]) (simp add: NumBands_def)
qed

theorem GeoImage_ComputeStats_fills_caches_witness:
  "\<exists>img'. GeoImage_ComputeStats (ex_store [[3, 5]]) ex_image = Inr img' \<and> NumBands img' = 1 \<and>
     ValidStats (RasterBands img' ! 0)"
proof -
  have r: "raster_values (ex_store [[3, 5]]) ex_band = Inr [6, 10]"
    using raster_values_ex_band [of 3 5] by simp
  have "\<forall>b\<in>set (RasterBands ex_image). valid_chunking b \<and>
          (\<exists>vs. raster_values (ex_store [[3, 5]]) b = Inr vs) \<and> cache_ok (ex_store [[3, 5]]) b"
  proof -
    have "\<not> ValidStats ex_band" by (simp add: ex_band_def)
    then have "cache_ok (ex_store [[3, 5]]) ex_band" by (simp add: cache_ok_def)
    then show ?thesis using r valid_chunking_ex_band by (simp add: ex_image_def)
  qed
  from GeoImage_ComputeStats_fills_caches [OF this]
  show ?thesis by (auto simp: ex_image_def NumBands_def)
qed

section \<open>Loading bands\<close>

lemma largest_band_prefix:
  assumes "1 \<le> k" and "k \<le> length bs"
  shows "let i = foldl (\<lambda>index i. if XSize (bs ! i) > XSize (bs ! index) then i else index) 0 [0..<k]
         in i < k \<and> (\<forall>j<k. XSize (bs ! j) \<le> XSize (bs ! i)) \<and> (\<forall>j<i. XSize (bs ! j) < XSize (bs ! i))"
  using assms
proof (induction k rule: nat_induct_at_least)
  case base
  then show ?case by simp
next
  case (Suc k)
  define i where "i = foldl (\<lambda>index i. if XSize (bs ! i) > XSize (bs ! index) then i else index) 0 [0..<k]"
  have ih: "i < k" "\<And>j. j < k \<Longrightarrow> XSize (bs ! j) \<le> XSize (bs ! i)"
    "\<And>j. j < i \<Longrightarrow> XSize (bs ! j) < XSize (bs ! i)"
    using Suc by (simp_all add: Let_def i_def)
  show ?case
  proof (cases "XSize (bs ! k) > XSize (bs ! i)")
    case True
    have "XSize (bs ! j) \<le> XSize (bs ! k)" if "j < Suc k" for j
      using that ih(2) [of j] True by (cases "j = k") simp_all
    moreover have "XSize (bs ! j) < XSize (bs ! k)" if "j < k" for j
      using ih(2) [OF that] True by simp
    ultimately show ?thesis using True by (simp add: Let_def i_def [symmetric])
  next
    case False
    have "XSize (bs ! j) \<le> XSize (bs ! i)" if "j < Suc k" for j
      using that ih(2) [of j] False by (cases "j = k") simp_all
    then show ?thesis using False ih(1,3) by (simp add: Let_def i_def [symmetric])
  qed
qed

lemma largest_band_first_max:
  assumes "bs \<noteq> []"
  shows "largest_band bs < length bs \<and> (\<forall>j<length bs. XSize (bs ! j) \<le> XSize (bs ! largest_band bs)) \<and>
         (\<forall>j<largest_band bs. XSize (bs ! j) < XSize (bs ! largest_band bs))"
  using largest_band_prefix [of "length bs" bs] assms by (simp add: largest_band_def Let_def Suc_le_eq)

text \<open>
  C16. When the dataset has sub-datasets, \<open>LoadBands\<close> appends one band per
  sub-dataset and re-points the image at the first band of greatest width
  (\<open>XSize\<close>): the image's width becomes the largest width of its bands, and
  every earlier band is strictly narrower.  Height plays no part in the
  choice.
\<close>

theorem LoadBands_repoints:
  assumes "subs \<noteq> []"
  shows "RasterBands (LoadBands raw subs img) = RasterBands img @ subs \<and>
         largest_band (RasterBands img @ subs) < length (RasterBands img @ subs) \<and>
         gd_ds (LoadBands raw subs img) = gd_ds ((RasterBands img @ subs) ! largest_band (RasterBands img @ subs)) \<and>
         XSize (LoadBands raw subs img) = Max (XSize ` set (RasterBands img @ subs)) \<and>
         (\<forall>j<largest_band (RasterBands img @ subs).
            XSize ((RasterBands img @ subs) ! j) < XSize (LoadBands raw subs img))"
proof -
  let ?bs = "RasterBands img @ subs" and ?i = "largest_band (RasterBands img @ subs)"
  have ne: "?bs \<noteq> []" using assms by simp
  note lb = largest_band_first_max [OF ne]
  have "Max (XSize ` set ?bs) = XSize (?bs ! ?i)"
  proof (rule Max_eqI)
    show "XSize (?bs ! ?i) \<in> XSize ` set ?bs" using lb by (intro imageI nth_mem) simp
  next
    fix y assume "y \<in> XSize ` set ?bs"
    then obtain j where "j < length ?bs" and "y = XSize (?bs ! j)" by (metis imageE in_set_conv_nth)
    then show "y \<le> XSize (?bs ! ?i)" using lb by blast
  qed simp
  then show ?thesis using assms lb by (simp add: LoadBands_def Let_def)
qed

theorem LoadBands_repoints_witness:
  "XSize (LoadBands [] [ex_band\<lparr>XSize := 4, YSize := 2\<rparr>, ex_band\<lparr>XSize := 4, YSize := 9\<rparr>] (ex_image\<lparr>RasterBands := []\<rparr>)) = 4 \<and>
   YSize (LoadBands [] [ex_band\<lparr>XSize := 4, YSize := 2\<rparr>, ex_band\<lparr>XSize := 4, YSize := 9\<rparr>] (ex_image\<lparr>RasterBands := []\<rparr>)) = 2"
proof -
  let ?bs = "[ex_band\<lparr>XSize := 4, YSize := 2\<rparr>, ex_band\<lparr>XSize := 4, YSize := 9\<rparr>]"
  have l: "largest_band ?bs = 0" by (simp add: largest_band_def upt_rec)
  have x: "XSize (LoadBands [] ?bs (ex_image\<lparr>RasterBands := []\<rparr>)) = Max (XSize ` set ?bs)"
    using LoadBands_repoints [of ?bs "[]" "ex_image\<lparr>RasterBands := []\<rparr>"] by simp
  have "YSize (LoadBands [] ?bs (ex_image\<lparr>RasterBands := []\<rparr>)) = 2"
    using l by (simp add: LoadBands_def Let_def)
  with x show ?thesis by simp
qed

section \<open>The invariant of the colour map\<close>

lemma snd_colors_remove: "snd ` set (colors_remove cs k) = snd ` set cs - {k}"
  by (force simp: colors_remove_def)

lemma positions_remove:
  fixes S :: "nat set"
  assumes "\<forall>j\<in>S. 0 < j \<and> j \<le> n"
  shows "(\<forall>j\<in>S - {k}. 0 < j \<and> j \<le> n - 1) \<longleftrightarrow> k = n \<or> n \<notin> S"
proof
  assume a: "\<forall>j\<in>S - {k}. 0 < j \<and> j \<le> n - 1"
  show "k = n \<or> n \<notin> S"
  proof (rule ccontr)
    assume "\<not> (k = n \<or> n \<notin> S)"
    then have "n \<in> S - {k}" by blast
    with a have "0 < n \<and> n \<le> n - 1" by (rule bspec)
    then show False by linarith
  qed
next
  assume n: "k = n \<or> n \<notin> S"
  show "\<forall>j\<in>S - {k}. 0 < j \<and> j \<le> n - 1"
  proof
    fix j assume j: "j \<in> S - {k}"
    then have "0 < j \<and> j \<le> n" using assms by simp
    moreover have "j \<noteq> n" using j n by auto
    ultimately show "0 < j \<and> j \<le> n - 1" by linarith
  qed
qed

lemma colors_wf_snd: "colors_wf img \<longleftrightarrow> (\<forall>j\<in>snd ` set (Colors img). 0 < j \<and> j \<le> NumBands img)"
  by (force simp: colors_wf_def)

text \<open>
  C25. \<open>RemoveBand(k)\<close> of a present band keeps the colour-map invariant
  exactly when it removes the last band or no colour names the last
  position: otherwise the entry of the last position is left pointing past
  the end.
\<close>

theorem RemoveBand_colors_wf:
  assumes "colors_wf img" and "0 < k" and "k \<le> NumBands img" and "RemoveBand k img = Inr img'"
  shows "colors_wf img' \<longleftrightarrow> k = NumBands img \<or> NumBands img \<notin> snd ` set (Colors img)"
proof -
  let ?n = "NumBands img"
  have e: "img' = img\<lparr>RasterBands := take (k - 1) (RasterBands img) @ drop k (RasterBands img),
                        Colors := colors_remove (Colors img) k\<rparr>"
    using assms(2-4) by (simp add: RemoveBand_def NumBands_def)
  have img': "NumBands img' = ?n - 1" "Colors img' = colors_remove (Colors img) k"
    using assms(2,3) by (simp_all add: e NumBands_def)
  let ?S = "snd ` set (Colors img)"
  have S: "\<forall>j\<in>?S. 0 < j \<and> j \<le> ?n" using assms(1) by (simp only: colors_wf_snd)
  have "snd ` set (Colors img') = ?S - {k}" by (simp only: img'(2) snd_colors_remove)
  then have "colors_wf img' \<longleftrightarrow> (\<forall>j\<in>?S - {k}. 0 < j \<and> j \<le> ?n - 1)"
    by (simp only: colors_wf_snd img'(1))
  also have "\<dots> \<longleftrightarrow> k = ?n \<or> ?n \<notin> ?S" by (rule positions_remove [OF S])
  finally show ?thesis .
qed

theorem RemoveBand_colors_wf_witness:
  "colors_wf ex_five \<and>
   RemoveBand 2 ex_five =
     Inr (ex_five\<lparr>RasterBands := map (\<lambda>i. ex_band\<lparr>band_num := i\<rparr>) [1, 3, 4, 5],
                  Colors := [(''red'', 1), (''blue'', 3), (''nir'', 4), (''swir'', 5)]\<rparr>) \<and>
   \<not> colors_wf (ex_five\<lparr>RasterBands := map (\<lambda>i. ex_band\<lparr>band_num := i\<rparr>) [1, 3, 4, 5],
                  Colors := [(''red'', 1), (''blue'', 3), (''nir'', 4), (''swir'', 5)]\<rparr>)"
proof -
  have w: "colors_wf ex_five" by (simp add: colors_wf_def ex_five_def NumBands_def)
  have r: "RemoveBand 2 ex_five =
     Inr (ex_five\<lparr>RasterBands := map (\<lambda>i. ex_band\<lparr>band_num := i\<rparr>) [1, 3, 4, 5],
                  Colors := [(''red'', 1), (''blue'', 3), (''nir'', 4), (''swir'', 5)]\<rparr>)"
    by (simp add: RemoveBand_def ex_five_def colors_remove_def upt_rec)
  have "NumBands ex_five = 5" "(''swir'', 5) \<in> set (Colors ex_five)" by (simp_all add: ex_five_def NumBands_def)
  then show ?thesis using RemoveBand_colors_wf [OF w _ _ r] w r by force
qed

section \<open>Adding bands\<close>

lemma color_index_wf: "colors_wf img \<Longrightarrow> color_index (Colors img) c \<le> NumBands img"
  by (auto simp: color_index_def colors_wf_def dest!: map_of_SomeD split: option.split)

lemma get_band_append:
  assumes "colors_wf img" and "Colors img' = Colors img" and "RasterBands img' = RasterBands img @ bs"
  shows "get_band img' c = get_band img c"
proof -
  have i: "color_index (Colors img) c \<le> length (RasterBands img)"
    using color_index_wf [OF assms(1)] by (simp add: NumBands_def)
  then show ?thesis using assms(2,3) by (auto simp: get_band_def Let_def nth_append)
qed

text \<open>
  C26. While the colour map is well formed, \<open>AddBand\<close> puts the new band
  after the existing ones (\<open>_RasterBands.push_back\<close>) and \<open>LoadBands\<close>
  appends its bands: every colour that was found before is found on the
  same band after either operation, and the added band is the last one.
\<close>

theorem AddBand_LoadBands_lookup:
  assumes "colors_wf img"
  shows "get_band (AddBand b img) c = get_band img c \<and> RasterBands (AddBand b img) ! NumBands img = b \<and>
         get_band (LoadBands raw subs img) c = get_band img c"
proof (intro conjI)
  show "get_band (AddBand b img) c = get_band img c"
    by (rule get_band_append [OF assms]) (simp_all add: AddBand_def)
  show "RasterBands (AddBand b img) ! NumBands img = b" by (simp add: AddBand_def NumBands_def)
  show "get_band (LoadBands raw subs img) c = get_band img c"
    by (rule get_band_append [OF assms, where bs = "if subs = [] then raw else subs"])
       (simp_all add: LoadBands_def Let_def)
qed

theorem AddBand_LoadBands_lookup_witness:
  "get_band (AddBand (ex_band\<lparr>band_num := 2\<rparr>) ex_image) ''red'' = Inr ex_band \<and>
   RasterBands (AddBand (ex_band\<lparr>band_num := 2\<rparr>) ex_image) ! 1 = ex_band\<lparr>band_num := 2\<rparr>"
proof -
  have w: "colors_wf ex_image" by (simp add: colors_wf_def ex_image_def NumBands_def)
  have "get_band ex_image ''red'' = Inr ex_band" "NumBands ex_image = 1"
    by (simp_all add: get_band_def ex_image_def color_index_def NumBands_def)
  then show ?thesis using AddBand_LoadBands_lookup [OF w, of "ex_band\<lparr>band_num := 2\<rparr>" "''red''"] by simp
qed

end
