(* ===== verification/Utils.thy ===== *)
theory Utils
  imports Prelude
begin

text \<open>
  String utilities (\<open>src/GIP/gip/gip/Utils.h\<close>): \<open>Split\<close> and \<open>ParseToInts\<close>.
  Strings are character lists; a \<open>string::size_type\<close> search result is a
  \<open>nat option\<close> whose \<open>None\<close> is \<open>string::npos\<close>.  \<open>substr\<close> throws
  \<open>std::out_of_range\<close> past the end, an error value here.  \<open>atoi\<close> is a C
  library function modelled from the C standard: leading white space, an
  optional sign, decimal digits; a value outside \<open>int\<close> is undefined
  behaviour, the error \<open>IntOverflow\<close>.  The integers \<open>ParseToInts\<close> pushes
  into a \<open>vector<unsigned int>\<close> are converted to 32-bit words.
\<close>

unbundle bit_operations_syntax

section \<open>The standard string operations \<open>Split\<close> calls\<close>

text \<open>\<open>s.find_first_of(match, start)\<close>.\<close>

definition find_first_of :: "string \<Rightarrow> string \<Rightarrow> nat \<Rightarrow> nat option" where
  "find_first_of s m start = find (\<lambda>i. s ! i \<in> set m) [start..<length s]"

text \<open>\<open>s.find(match, start)\<close>: the first occurrence of the whole string.\<close>

definition find_str :: "string \<Rightarrow> string \<Rightarrow> nat \<Rightarrow> nat option" where
  "find_str s m start =
     find (\<lambda>i. i + length m \<le> length s \<and> take (length m) (drop i s) = m) [start..<Suc (length s)]"

text \<open>\<open>s.substr(pos, n)\<close>, with \<open>None\<close> for the default \<open>n = npos\<close>.\<close>

definition substr :: "string \<Rightarrow> nat \<Rightarrow> nat option \<Rightarrow> string result" where
  "substr s pos n =
     (if pos \<le> length s then
        Inr (case n of None \<Rightarrow> drop pos s | Some k \<Rightarrow> take k (drop pos s))
      else Inl (SubstrOutOfRange pos))"

section \<open>Split\<close>

text \<open>The search \<open>pfind\<close> selects (line 39 and line 45).\<close>

definition split_find :: "bool \<Rightarrow> string \<Rightarrow> string \<Rightarrow> nat \<Rightarrow> nat option" where
  "split_find fullMatch s m start = (if fullMatch then find_str s m start else find_first_of s m start)"

text \<open>
  The loop of lines 48--66; \<open>skip\<close> is 1, or the length of the match string
  when \<open>fullMatch\<close> (line 44).  Each round searches from \<open>start\<close>, extracts
  \<open>s.substr(start, end - start)\<close> (the rest of the string when \<open>end\<close> is
  \<open>npos\<close>), keeps it unless it is empty and \<open>removeEmpty\<close>, and restarts after
  the match.
\<close>

function split_loop ::
  "string \<Rightarrow> string \<Rightarrow> bool \<Rightarrow> bool \<Rightarrow> nat \<Rightarrow> string list \<Rightarrow> string list result" where
  "split_loop s m removeEmpty fullMatch start acc =
     (let skip = (if fullMatch then length m else 1);
          endp = (if skip = 0 then None else split_find fullMatch s m start)
      in ebind (substr s start (map_option (\<lambda>e. e - start) endp)) (\<lambda>token.
           let acc' = (if removeEmpty \<and> token = [] then acc else acc @ [token])
           in case endp of
                None \<Rightarrow> Inr acc'
              | Some e \<Rightarrow> split_loop s m removeEmpty fullMatch (e + skip) acc'))"
  by pat_completeness auto
termination
proof (relation "measure (\<lambda>(s, m, removeEmpty, fullMatch, start, acc). Suc (length s) - start)")
  fix s m removeEmpty fullMatch start acc skip endp token acc' e
  assume "skip = (if fullMatch then length m else 1)"
    and "endp = (if skip = 0 then None else split_find fullMatch s m start)" and "endp = Some e"
  then have f: "split_find fullMatch s m start = Some e" and sk: "0 < skip"
    by (auto split: if_splits)
  have "start \<le> e \<and> e + skip \<le> length s"
  proof (cases fullMatch)
    case True
    with f have "find (\<lambda>i. i + length m \<le> length s \<and> take (length m) (drop i s) = m)
                   [start..<Suc (length s)] = Some e"
      by (simp add: split_find_def find_str_def)
    then show ?thesis using True \<open>skip = _\<close> by (auto simp: find_Some_iff simp del: upt_Suc)
  next
    case False
    with f have "find (\<lambda>i. s ! i \<in> set m) [start..<length s] = Some e"
      by (simp add: split_find_def find_first_of_def)
    then show ?thesis using False \<open>skip = _\<close> by (auto simp: find_Some_iff)
  qed
  with sk have "start \<le> e" "e + skip \<le> length s" "0 < skip" by simp_all
  then show "((s, m, removeEmpty, fullMatch, e + skip, acc'), s, m, removeEmpty, fullMatch, start, acc)
             \<in> measure (\<lambda>(s, m, removeEmpty, fullMatch, start, acc). Suc (length s) - start)"
    by simp
qed simp

declare split_loop.simps [simp del]

text \<open>\<open>Split(s, match, removeEmpty, fullMatch)\<close> (lines 33--68).\<close>

definition Split :: "string \<Rightarrow> string \<Rightarrow> bool \<Rightarrow> bool \<Rightarrow> string list result" where
  "Split s m removeEmpty fullMatch = split_loop s m removeEmpty fullMatch 0 []"

text \<open>Joining tokens with a separator, the inverse the round trip is stated with.\<close>

fun join :: "string \<Rightarrow> string list \<Rightarrow> string" where
  "join sep [] = []"
| "join sep [t] = t"
| "join sep (t # u # ts) = t @ sep @ join sep (u # ts)"

section \<open>ParseToInts\<close>

definition INT_MAX :: int where "INT_MAX = 2 ^ 31 - 1"
definition INT_MIN :: int where "INT_MIN = - (2 ^ 31)"

definition is_space :: "char \<Rightarrow> bool" where
  "is_space c \<longleftrightarrow> c = CHR '' '' \<or> (9 \<le> (of_char c :: nat) \<and> (of_char c :: nat) \<le> 13)"

definition is_digit :: "char \<Rightarrow> bool" where
  "is_digit c \<longleftrightarrow> CHR ''0'' \<le> c \<and> c \<le> CHR ''9''"

definition digit_val :: "char \<Rightarrow> int" where
  "digit_val c = int (of_char c) - 48"

text \<open>\<open>atoi(str)\<close> (C standard, 7.22.1.2): a value outside \<open>int\<close> is undefined.\<close>

definition atoi :: "string \<Rightarrow> int result" where
  "atoi str =
     (let s1 = dropWhile is_space str;
          (neg, s2) = (case s1 of c # r \<Rightarrow> if c = CHR ''-'' then (True, r)
                                          else if c = CHR ''+'' then (False, r) else (False, s1)
                                | [] \<Rightarrow> (False, []));
          v = foldl (\<lambda>a c. 10 * a + digit_val c) 0 (takeWhile is_digit s2);
          r = (if neg then - v else v)
      in if INT_MIN \<le> r \<and> r \<le> INT_MAX then Inr r else Inl IntOverflow)"

text \<open>
  \<open>for (int i=b1;i<=b2;i++) intarray.push_back(i);\<close> (line 83): each \<open>i\<close> is
  converted to \<open>unsigned int\<close>; the increment past \<open>INT_MAX\<close> is undefined.
\<close>

function int_range :: "int \<Rightarrow> int \<Rightarrow> 32 word list \<Rightarrow> 32 word list result" where
  "int_range i b2 acc =
     (if i \<le> b2 then
        (if i = INT_MAX then Inl IntOverflow else int_range (i + 1) b2 (acc @ [word_of_int i]))
      else Inr acc)"
  by pat_completeness auto
termination
  by (relation "measure (\<lambda>(i, b2, acc). nat (b2 - i + 1))") auto

declare int_range.simps [simp del]

text \<open>One token of \<open>ParseToInts\<close> (lines 77--84).\<close>

definition parse_token :: "string \<Rightarrow> 32 word list result" where
  "parse_token tok =
     (case find_str tok ''-'' 0 of
        None \<Rightarrow> ebind (atoi tok) (\<lambda>v. Inr [word_of_int v])
      | Some loc \<Rightarrow>
          ebind (substr tok 0 (Some loc)) (\<lambda>t1. ebind (substr tok (loc + 1) None) (\<lambda>t2.
          ebind (atoi t1) (\<lambda>b1. ebind (atoi t2) (\<lambda>b2. int_range b1 b2 [])))))"

text \<open>\<open>ParseToInts(s)\<close> (lines 71--87): the tokens of \<open>Split(s, " ,")\<close> in order.\<close>

definition ParseToInts :: "string \<Rightarrow> 32 word list result" where
  "ParseToInts s = ebind (Split s '' ,'' False False) (\<lambda>str. ebind (map_err parse_token str) (\<lambda>l. Inr (concat l)))"

section \<open>Split: totality, round trip, empty tokens\<close>

lemma split_find_Some:
  assumes "split_find fullMatch s m start = Some e"
  shows "start \<le> e \<and> e + (if fullMatch then length m else 1) \<le> length s \<and>
         (if fullMatch then take (length m) (drop e s) = m else s ! e \<in> set m)"
proof (cases fullMatch)
  case True
  with assms have "find (\<lambda>i. i + length m \<le> length s \<and> take (length m) (drop i s) = m)
                     [start..<Suc (length s)] = Some e"
    by (simp add: split_find_def find_str_def)
  then show ?thesis using True by (auto simp: find_Some_iff simp del: upt_Suc)
next
  case False
  with assms have "find (\<lambda>i. s ! i \<in> set m) [start..<length s] = Some e"
    by (simp add: split_find_def find_first_of_def)
  then show ?thesis using False by (auto simp: find_Some_iff)
qed

lemma substr_Inr: "pos \<le> length s \<Longrightarrow>
  substr s pos n = Inr (case n of None \<Rightarrow> drop pos s | Some k \<Rightarrow> take k (drop pos s))"
  by (simp add: substr_def)

lemma split_loop_unfold:
  "split_loop s m re fm start acc =
     (let skip = (if fm then length m else 1);
          endp = (if skip = 0 then None else split_find fm s m start)
      in ebind (substr s start (map_option (\<lambda>e. e - start) endp)) (\<lambda>token.
           let acc' = (if re \<and> token = [] then acc else acc @ [token])
           in case endp of None \<Rightarrow> Inr acc' | Some e \<Rightarrow> split_loop s m re fm (e + skip) acc'))"
  by (rule split_loop.simps)

lemma split_loop_total:
  "start \<le> length s \<Longrightarrow> \<exists>r. split_loop s m re fm start acc = Inr r"
proof (induction "Suc (length s) - start" arbitrary: start acc rule: less_induct)
  case less
  define skip where "skip = (if fm then length m else 1)"
  define endp where "endp = (if skip = 0 then None else split_find fm s m start)"
  show ?case
  proof (cases endp)
    case None
    then show ?thesis using less.prems
      by (simp add: split_loop_unfold [of s m re fm start acc] skip_def [symmetric]
                    endp_def [symmetric] substr_Inr Let_def)
  next
    case (Some e)
    then have f: "split_find fm s m start = Some e" and sk: "0 < skip"
      by (auto simp: endp_def split: if_splits)
    then have e: "start \<le> e" "e + skip \<le> length s"
      using split_find_Some [of fm s m start e] by (simp_all add: skip_def)
    have "\<exists>r. split_loop s m re fm (e + skip) acc' = Inr r" for acc'
      using less.hyps [of "e + skip"] e sk by simp
    then show ?thesis using less.prems f sk
      by (simp add: split_loop_unfold [of s m re fm start acc] skip_def [symmetric] substr_Inr Let_def)
  qed
qed

text \<open>
  C17. \<open>Split\<close> never throws: every \<open>substr\<close> it makes starts inside the
  string, whatever the delimiters and flags, and its loop always ends.
\<close>

theorem Split_total: "\<exists>ts. Split s m removeEmpty fullMatch = Inr ts"
  unfolding Split_def by (rule split_loop_total) simp

lemma split_loop_join:
  assumes sep: "if fm then m \<noteq> [] else length m = 1"
  shows "start \<le> length s \<Longrightarrow>
         \<exists>ts. split_loop s m False fm start acc = Inr (acc @ ts) \<and> ts \<noteq> [] \<and> join m ts = drop start s"
proof (induction "Suc (length s) - start" arbitrary: start acc rule: less_induct)
  case less
  define skip where "skip = (if fm then length m else 1)"
  have sk: "0 < skip" using sep by (simp add: skip_def split: if_splits)
  show ?case
  proof (cases "split_find fm s m start")
    case None
    then show ?thesis using less.prems sk
      by (simp add: split_loop_unfold [of s m False fm start acc] skip_def [symmetric] substr_Inr Let_def
                    )
  next
    case (Some e)
    have e: "start \<le> e" "e + skip \<le> length s"
      and hit: "if fm then take (length m) (drop e s) = m else s ! e \<in> set m"
      using split_find_Some [OF Some] by (simp_all add: skip_def)
    have sepm: "take skip (drop e s) = m"
    proof (cases fm)
      case False
      then obtain c where "m = [c]" using sep by (auto simp: length_Suc_conv)
      with False hit e show ?thesis by (simp add: skip_def take_Suc_conv_app_nth)
    qed (use hit in \<open>simp add: skip_def\<close>)
    let ?tok = "take (e - start) (drop start s)"
    have "\<exists>ts. split_loop s m False fm (e + skip) (acc @ [?tok]) = Inr ((acc @ [?tok]) @ ts) \<and>
            ts \<noteq> [] \<and> join m ts = drop (e + skip) s"
      using e sk by (intro less.hyps) simp_all
    then obtain ts where ts: "split_loop s m False fm (e + skip) (acc @ [?tok]) = Inr (acc @ [?tok] @ ts)"
      "ts \<noteq> []" "join m ts = drop (e + skip) s" by auto
    have "drop start s = ?tok @ drop e s"
      using e(1) by (metis append_take_drop_id drop_drop le_add_diff_inverse2)
    also have "drop e s = m @ drop (e + skip) s"
      using sepm by (metis append_take_drop_id drop_drop add.commute)
    finally have "join m (?tok # ts) = drop start s" using ts(2,3) by (cases ts) simp_all
    then show ?thesis using less.prems Some sk ts(1)
      by (intro exI [of _ "?tok # ts"])
         (simp add: split_loop_unfold [of s m False fm start acc] skip_def [symmetric] substr_Inr Let_def)
  qed
qed

text \<open>
  C18. Splitting on one delimiter character, or on a non-empty delimiter
  string with \<open>fullMatch\<close>, and keeping the empty tokens, loses nothing: the
  tokens joined with the delimiter give back the string.
\<close>

theorem Split_join:
  assumes "if fullMatch then m \<noteq> [] else length m = 1"
  shows "\<exists>ts. Split s m False fullMatch = Inr ts \<and> join m ts = s"
  using split_loop_join [OF assms, of 0 s "[]"] by (auto simp: Split_def)

theorem Split_join_witness:
  "Split ''a,,b'' '','' False False = Inr [''a'', '''', ''b''] \<and> join '','' [''a'', '''', ''b''] = ''a,,b''"
proof -
  have "\<exists>ts. Split ''a,,b'' '','' False False = Inr ts \<and> join '','' ts = ''a,,b''"
    by (rule Split_join) simp
  moreover have "Split ''a,,b'' '','' False False = Inr [''a'', '''', ''b'']"
    by (simp add: Split_def split_loop.simps split_find_def find_first_of_def substr_def upt_rec)
  ultimately show ?thesis by auto
qed

lemma split_loop_removeEmpty:
  "split_loop s m True fm start (filter (\<lambda>t. t \<noteq> []) acc) =
     map_sum id (filter (\<lambda>t. t \<noteq> [])) (split_loop s m False fm start acc)"
proof (induction "Suc (length s) - start" arbitrary: start acc rule: less_induct)
  case less
  define skip where "skip = (if fm then length m else 1)"
  show ?case
  proof (cases "start \<le> length s")
    case False
    then show ?thesis
      by (simp add: split_loop_unfold [of s m _ fm start] skip_def [symmetric] substr_def Let_def)
  next
    case True
    show ?thesis
    proof (cases "skip \<noteq> 0 \<and> split_find fm s m start \<noteq> None")
      case False
      then show ?thesis using True
        by (auto simp: split_loop_unfold [of s m _ fm start] skip_def [symmetric] substr_Inr Let_def)
    next
      case c: True
      then obtain e where f: "split_find fm s m start = Some e" and sk: "0 < skip" by auto
      have e: "start \<le> e" "e + skip \<le> length s"
        using split_find_Some [OF f] by (simp_all add: skip_def)
      let ?tok = "take (e - start) (drop start s)"
      have ih: "split_loop s m True fm (e + skip) (filter (\<lambda>t. t \<noteq> []) (acc @ [?tok])) =
                map_sum id (filter (\<lambda>t. t \<noteq> [])) (split_loop s m False fm (e + skip) (acc @ [?tok]))"
        using e sk by (intro less.hyps) simp_all
      have L: "split_loop s m True fm start (filter (\<lambda>t. t \<noteq> []) acc) =
               split_loop s m True fm (e + skip) (filter (\<lambda>t. t \<noteq> []) (acc @ [?tok]))"
        using True f sk by (simp add: split_loop_unfold [of s m True fm start] skip_def [symmetric]
                                      substr_Inr Let_def)
      have R: "split_loop s m False fm start acc = split_loop s m False fm (e + skip) (acc @ [?tok])"
        using True f sk by (simp add: split_loop_unfold [of s m False fm start] skip_def [symmetric]
                                      substr_Inr Let_def)
      show ?thesis by (simp only: L R ih)
    qed
  qed
qed

text \<open>
  C19. \<open>removeEmpty\<close> only filters: \<open>Split\<close> with it gives the tokens of
  \<open>Split\<close> without it, in the same order, minus the empty ones.
\<close>

theorem Split_removeEmpty:
  "Split s m True fullMatch = map_sum id (filter (\<lambda>t. t \<noteq> [])) (Split s m False fullMatch)"
  using split_loop_removeEmpty [of s m fullMatch 0 "[]"] by (simp add: Split_def)

section \<open>ParseToInts: ranges, bounds, examples\<close>

lemma unat_word_of_int_small:
  "0 \<le> v \<Longrightarrow> v < 2 ^ 32 \<Longrightarrow> unat (word_of_int v :: 32 word) = nat v"
  by (simp add: unat_eq_nat_uint uint_word_of_int)

lemma int_range_outcome:
  "b2 \<le> INT_MAX \<Longrightarrow>
   int_range b1 b2 acc =
     (if b2 < b1 then Inr acc
      else if b2 < INT_MAX then Inr (acc @ map word_of_int [b1..b2]) else Inl IntOverflow)"
proof (induction b1 b2 acc rule: int_range.induct)
  case (1 i b2 acc)
  show ?case
  proof (cases "i \<le> b2")
    case True
    show ?thesis
    proof (cases "i = INT_MAX")
      case True
      with \<open>i \<le> b2\<close> 1(2) show ?thesis by (subst int_range.simps) simp
    next
      case False
      with \<open>i \<le> b2\<close> 1 show ?thesis
        by (auto simp: int_range.simps [of i] upto_rec1 [of i b2])
    qed
  qed (simp add: int_range.simps [of i])
qed

lemma digit_val_nonneg: "is_digit c \<Longrightarrow> 0 \<le> digit_val c"
  by (simp add: is_digit_def digit_val_def less_eq_char_def)

lemma foldl_digits_nonneg:
  "0 \<le> a \<Longrightarrow> \<forall>c\<in>set ds. is_digit c \<Longrightarrow> 0 \<le> foldl (\<lambda>a c. 10 * a + digit_val c) a ds"
  by (induction ds arbitrary: a) (simp_all add: digit_val_nonneg)

lemma atoi_bounds:
  assumes "atoi t = Inr v"
  shows "v \<le> INT_MAX" and "CHR ''-'' \<notin> set t \<Longrightarrow> 0 \<le> v"
proof -
  show "v \<le> INT_MAX" using assms by (auto simp: atoi_def Let_def split: if_splits prod.splits)
next
  assume nd: "CHR ''-'' \<notin> set t"
  have "CHR ''-'' \<notin> set (dropWhile is_space t)" using nd set_dropWhileD by fastforce
  moreover have nn: "0 \<le> foldl (\<lambda>a c. 10 * a + digit_val c) a (takeWhile is_digit xs)"
    if "0 \<le> a" for a xs
    using that by (rule foldl_digits_nonneg) (auto dest: set_takeWhileD)
  ultimately show "0 \<le> v" using assms
    by (auto simp: atoi_def Let_def split: if_splits list.splits intro: nn digit_val_nonneg)
qed

lemma find_str_dash_None: "find_str s ''-'' 0 = None \<Longrightarrow> CHR ''-'' \<notin> set s"
  by (auto simp: find_str_def find_None_iff in_set_conv_nth take_Suc_conv_app_nth)

lemma find_str_dash_Some:
  "find_str s ''-'' 0 = Some loc \<Longrightarrow> CHR ''-'' \<notin> set (take loc s)"
  by (auto simp: find_str_def find_Some_iff in_set_conv_nth take_Suc_conv_app_nth simp del: upt_Suc)

lemma parse_token_bounds:
  assumes "parse_token tok = Inr ws" and "w \<in> set ws"
  shows "unat w < 2 ^ 31"
proof (cases "find_str tok ''-'' 0")
  case None
  then obtain v where v: "atoi tok = Inr v" and ws: "ws = [word_of_int v]"
    using assms(1) by (auto simp: parse_token_def)
  have "0 \<le> v" "v \<le> INT_MAX" using atoi_bounds [OF v] find_str_dash_None [OF None] by auto
  then show ?thesis using ws assms(2) by (simp add: unat_word_of_int_small INT_MAX_def)
next
  case (Some loc)
  then obtain b1 b2 where b1: "atoi (take loc tok) = Inr b1" and b2: "atoi (drop (loc + 1) tok) = Inr b2"
    and r: "int_range b1 b2 [] = Inr ws" and loc: "loc + 1 \<le> length tok"
    using assms(1) by (auto simp: parse_token_def substr_def split: if_splits)
  have "0 \<le> b1" using atoi_bounds(2) [OF b1] find_str_dash_Some [OF Some] by blast
  moreover have "b2 \<le> INT_MAX" using atoi_bounds(1) [OF b2] .
  ultimately obtain v where "w = word_of_int v" "0 \<le> v" "v < INT_MAX"
    using r int_range_outcome [of b2 b1 "[]"] assms(2) by (auto split: if_splits)
  then show ?thesis by (simp add: unat_word_of_int_small INT_MAX_def)
qed

lemmas parse_eval = ParseToInts_def Split_def split_loop.simps split_find_def find_first_of_def
  substr_def upt_rec parse_token_def find_str_def atoi_def is_space_def is_digit_def digit_val_def
  INT_MAX_def INT_MIN_def int_range.simps

text \<open>
  C20. Every number \<open>ParseToInts\<close> returns lies below \<open>2^31\<close>: a token
  without a dash is read by \<open>atoi\<close> without a minus sign, and a range starts
  at the non-negative number before the first dash and stops below
  \<open>INT_MAX\<close>; the conversion to \<open>unsigned int\<close> never wraps.
\<close>

theorem ParseToInts_bounds:
  assumes "ParseToInts s = Inr ws" and "w \<in> set ws"
  shows "unat w < 2 ^ 31"
proof -
  obtain str l where "map_err parse_token str = Inr l" and ws: "ws = concat l"
    using assms(1) by (auto simp: ParseToInts_def)
  then have l: "\<forall>x\<in>set str. parse_token x = Inr (projr (parse_token x))"
    and "l = map (\<lambda>x. projr (parse_token x)) str"
    by (simp_all add: map_err_Inr_iff)
  then obtain x where "x \<in> set str" and "w \<in> set (projr (parse_token x))"
    using assms(2) ws by auto
  with l show ?thesis using parse_token_bounds by blast
qed

theorem ParseToInts_bounds_witness:
  "ParseToInts ''3-5'' = Inr [3, 4, 5] \<and> unat (5 :: 32 word) < 2 ^ 31"
proof -
  have e: "ParseToInts ''3-5'' = Inr [3, 4, 5]" by (simp add: parse_eval)
  show ?thesis using ParseToInts_bounds [OF e, of 5] e by simp
qed

end
