(* ===== verification/Process.thy ===== *)
theory Process
  imports Raster
begin

text \<open>
  FunctionPipeline / derivation: \<open>GeoRaster::Process\<close> (\<open>GeoRaster.cpp\<close>,
  lines 43--56) and the assignment operator (lines 19--41).  \<open>Process\<close>
  selects a numeric representation from the destination's data type and
  runs \<open>GeoRasterIO<T>::Process\<close>, which is declared in a header that is not
  among the sources; it is modelled from the specification (section 4.5):
  for each tile of the destination, the source tile is read, each pixel goes
  through gain and offset, the function list and the mask list (a failing
  mask gives the destination's no-data value), is converted to \<open>T\<close>, and the
  tile is written to the destination's plane.  The conversion of a double
  to an integral \<open>T\<close> truncates toward zero and is undefined out of range
  (an error here); float rounding is not modelled.
\<close>

section \<open>The numeric representations\<close>

datatype num_repr = R_uchar | R_ushort | R_short | R_uint | R_int | R_float | R_double

text \<open>The \<open>switch (DataType())\<close> of lines 45--55, its \<open>default\<close> included.\<close>

fun Process_dispatch :: "GDALDataType \<Rightarrow> num_repr" where
  "Process_dispatch GDT_Byte = R_uchar"
| "Process_dispatch GDT_UInt16 = R_ushort"
| "Process_dispatch GDT_Int16 = R_short"
| "Process_dispatch GDT_UInt32 = R_uint"
| "Process_dispatch GDT_Int32 = R_int"
| "Process_dispatch GDT_Float32 = R_float"
| "Process_dispatch GDT_Float64 = R_double"
| "Process_dispatch _ = R_uchar"

text \<open>The range of an integral representation; the floating ones have none.\<close>

fun repr_range :: "num_repr \<Rightarrow> (int \<times> int) option" where
  "repr_range R_uchar = Some (0, 255)"
| "repr_range R_ushort = Some (0, 65535)"
| "repr_range R_short = Some (-32768, 32767)"
| "repr_range R_uint = Some (0, 4294967295)"
| "repr_range R_int = Some (-2147483648, 2147483647)"
| "repr_range R_float = None"
| "repr_range R_double = None"

text \<open>A double stored into a buffer of \<open>T\<close>.\<close>

definition repr_convert :: "num_repr \<Rightarrow> real \<Rightarrow> real result" where
  "repr_convert r v =
     (case repr_range r of
        None \<Rightarrow> Inr v
      | Some (lo, hi) \<Rightarrow>
          (let t = (if 0 \<le> v then \<lfloor>v\<rfloor> else \<lceil>v\<rceil>)
           in if lo \<le> t \<and> t \<le> hi then Inr (of_int t) else Inl InvalidCast))"

section \<open>Processing a band into another\<close>

text \<open>One pixel of the source through its pipeline; \<open>nd\<close> is the destination's no-data value.\<close>

definition process_pixel :: "store \<Rightarrow> 'a GeoRaster_scheme \<Rightarrow> real \<Rightarrow> nat \<times> nat \<Rightarrow> real result" where
  "process_pixel st src nd p =
     ebind (stored_value st (plane_key src) p) (\<lambda>v.
       ebind (fold_err (mask_holds st p) (Masks src) True) (\<lambda>ok.
         Inr (if ok then fold func_apply (Functions src) (v * Gain src + Offset src) else nd)))"

text \<open>Writing one value into a stored plane.\<close>

definition write_pixel :: "store \<Rightarrow> nat \<times> nat \<Rightarrow> nat \<times> nat \<Rightarrow> real \<Rightarrow> store result" where
  "write_pixel st key p v =
     (case st key of
        None \<Rightarrow> Inl (MissingPlane key)
      | Some pl \<Rightarrow> (case p of (y, x) \<Rightarrow>
          if y < length pl \<and> x < length (pl ! y) then Inr (st(key \<mapsto> pl[y := (pl ! y)[x := v]]))
          else Inl (PixelOutOfRange p)))"

text \<open>\<open>GeoRasterIO<T>::Write(cimg, iChunk)\<close>: the buffer into tile \<open>iChunk\<close>, row by row.\<close>

definition Write :: "store \<Rightarrow> 'a GeoRaster_scheme \<Rightarrow> nat \<Rightarrow> real list \<Rightarrow> store result" where
  "Write st b k vals =
     ebind (Chunk b k) (\<lambda>r.
       if length vals = length (rect_pixels r)
       then fold_err (\<lambda>(p, v) st. write_pixel st (plane_key b) p v) (zip (rect_pixels r) vals) st
       else Inl (TileSizeMismatch k))"

text \<open>One round of \<open>GeoRasterIO<T>::Process\<close>: read source tile \<open>k\<close>, convert, write.\<close>

definition process_chunk ::
  "num_repr \<Rightarrow> 'a GeoRaster_scheme \<Rightarrow> 'b GeoRaster_scheme \<Rightarrow> nat \<Rightarrow> store \<Rightarrow> store result" where
  "process_chunk R dst src k st =
     ebind (Chunk src k) (\<lambda>r.
       ebind (map_err (process_pixel st src (NoDataValue dst)) (rect_pixels r)) (\<lambda>vs.
         ebind (map_err (repr_convert R) vs) (\<lambda>cs. Write st dst k cs)))"

definition GeoRasterIO_Process ::
  "num_repr \<Rightarrow> store \<Rightarrow> 'a GeoRaster_scheme \<Rightarrow> 'b GeoRaster_scheme \<Rightarrow> store result" where
  "GeoRasterIO_Process R st dst src = fold_err (process_chunk R dst src) (chunk_ids dst) st"

text \<open>\<open>GeoRaster::Process(img)\<close>: \<open>this\<close> is the destination.\<close>

definition Process :: "store \<Rightarrow> 'a GeoRaster_scheme \<Rightarrow> 'b GeoRaster_scheme \<Rightarrow> store result" where
  "Process st dst src = GeoRasterIO_Process (Process_dispatch (DataType dst)) st dst src"

text \<open>
  The assignment operator (lines 19--41) copies every member; the band's
  gain, offset, no-data value, type and description live in the shared
  \<open>GDALRasterBand\<close>, whose pointer is copied too.
\<close>

definition GeoRaster_assign :: "'a GeoRaster_scheme \<Rightarrow> 'a GeoRaster_scheme \<Rightarrow> 'a GeoRaster_scheme" where
  "GeoRaster_assign dst src =
     dst\<lparr>gd_ds := gd_ds src, XSize := XSize src, YSize := YSize src, chunk_w := chunk_w src,
         chunk_h := chunk_h src, band_num := band_num src, DataType := DataType src,
         Gain := Gain src, Offset := Offset src, NoData := NoData src, NoDataValue := NoDataValue src,
         ValidStats := ValidStats src, StatsCache := StatsCache src, Functions := Functions src,
         Masks := Masks src, Description := Description src\<rparr>"

text \<open>Proof devices: the shape of a plane, and its value at a pixel.\<close>

definition same_shape :: "real list list \<Rightarrow> real list list \<Rightarrow> bool" where
  "same_shape pl pl' \<longleftrightarrow> length pl' = length pl \<and> (\<forall>y<length pl. length (pl' ! y) = length (pl ! y))"

definition fits :: "real list list \<Rightarrow> 'a GeoData_scheme \<Rightarrow> bool" where
  "fits pl g \<longleftrightarrow> YSize g \<le> length pl \<and> (\<forall>y<YSize g. XSize g \<le> length (pl ! y))"

definition plane_at :: "real list list \<Rightarrow> nat \<times> nat \<Rightarrow> real" where
  "plane_at pl p = pl ! fst p ! snd p"

definition in_plane :: "real list list \<Rightarrow> nat \<times> nat \<Rightarrow> bool" where
  "in_plane pl p \<longleftrightarrow> fst p < length pl \<and> snd p < length (pl ! fst p)"

text \<open>
  The example of the specification (section 7, item 7): a one-row band of
  values \<open>[0, 1, 2]\<close> with the function \<open>scale 2\<close> and a mask that fails
  where its plane holds 0, processed into a float band whose no-data value
  is \<open>-9999\<close>.
\<close>

definition ex_src :: GeoRaster where
  "ex_src = ex_band\<lparr>XSize := 3, Gain := 1, Functions := [\<lparr>Function = ''scale'', Operand = 2\<rparr>],
     Masks := [\<lparr>mask_src = (0, 1), mask_threshold = 0\<rparr>]\<rparr>"

definition ex_dst :: GeoRaster where
  "ex_dst = ex_band\<lparr>gd_ds := 1, XSize := 3, DataType := GDT_Float32, NoDataValue := -9999\<rparr>"

definition ex_st :: store where
  "ex_st = [(0, 1) \<mapsto> [[0, 1, 2]], (1, 1) \<mapsto> [[7, 7, 7]]]"

definition ex_out :: "nat \<times> nat \<Rightarrow> real" where
  "ex_out p = [-9999, 2, 4] ! snd p"

section \<open>Assignment\<close>

lemma GeoRaster_assign_eq: "GeoRaster_assign (dst :: GeoRaster) src = src"
  by (simp add: GeoRaster_assign_def)

section \<open>Writes\<close>

lemma fold_err_cong:
  "(\<And>x a. x \<in> set xs \<Longrightarrow> f x a = g x a) \<Longrightarrow> fold_err f xs a = fold_err g xs a"
proof (induction xs arbitrary: a)
  case (Cons x xs)
  have "fold_err f xs = fold_err g xs" using Cons by (auto simp: fun_eq_iff)
  then show ?case using Cons.prems by simp
qed simp

lemma same_shape_refl [simp]: "same_shape pl pl"
  by (simp add: same_shape_def)

lemma same_shape_trans: "same_shape pl pl1 \<Longrightarrow> same_shape pl1 pl2 \<Longrightarrow> same_shape pl pl2"
  by (simp add: same_shape_def)

lemma fits_same_shape: "fits pl g \<Longrightarrow> same_shape pl pl' \<Longrightarrow> fits pl' g"
  by (auto simp: fits_def same_shape_def)

lemma in_plane_same_shape: "same_shape pl pl' \<Longrightarrow> in_plane pl' q = in_plane pl q"
  by (auto simp: in_plane_def same_shape_def)

lemma fits_in_plane: "fits pl g \<Longrightarrow> p \<in> set (raster_pixels g) \<Longrightarrow> in_plane pl p"
  by (auto simp: fits_def in_plane_def set_raster_pixels mem_Times_iff)

lemma write_pixel_plane:
  assumes "st key = Some pl" and "y < length pl" and "x < length (pl ! y)"
  shows "write_pixel st key (y, x) v = Inr (st(key \<mapsto> pl[y := (pl ! y)[x := v]]))"
    and "same_shape pl (pl[y := (pl ! y)[x := v]])"
    and "in_plane pl q \<Longrightarrow>
         plane_at (pl[y := (pl ! y)[x := v]]) q = (if q = (y, x) then v else plane_at pl q)"
  using assms by (auto simp: write_pixel_def same_shape_def plane_at_def in_plane_def nth_list_update)

lemma write_all:
  assumes "st key = Some pl" and "fits pl g" and "set ps \<subseteq> set (raster_pixels g)"
  shows "\<exists>pl'. fold_err (\<lambda>(p, v) st. write_pixel st key p v) (map (\<lambda>p. (p, h p)) ps) st =
                Inr (st(key \<mapsto> pl')) \<and> same_shape pl pl' \<and>
                (\<forall>q. in_plane pl q \<longrightarrow> plane_at pl' q = (if q \<in> set ps then h q else plane_at pl q))"
  using assms
proof (induction ps arbitrary: st pl)
  case Nil
  then show ?case by (intro exI [of _ pl]) (simp add: map_upd_triv)
next
  case (Cons p ps)
  obtain y x where p: "p = (y, x)" by (cases p)
  have yx: "y < YSize g" "x < XSize g" using Cons.prems(3) p by (auto simp: set_raster_pixels)
  then have r: "y < length pl" "x < length (pl ! y)" using Cons.prems(2) by (auto simp: fits_def)
  define pl1 where "pl1 = pl[y := (pl ! y)[x := h p]]"
  have w: "write_pixel st key (y, x) (h p) = Inr (st(key \<mapsto> pl1))"
    using write_pixel_plane(1) [of st key pl y x, OF Cons.prems(1) r] by (simp add: pl1_def)
  have sh1: "same_shape pl pl1"
    using write_pixel_plane(2) [of st key pl y x, OF Cons.prems(1) r] by (simp add: pl1_def)
  obtain pl' where ih: "fold_err (\<lambda>(p, v) st. write_pixel st key p v) (map (\<lambda>p. (p, h p)) ps) (st(key \<mapsto> pl1)) =
                Inr ((st(key \<mapsto> pl1))(key \<mapsto> pl'))" "same_shape pl1 pl'"
      "\<forall>q. in_plane pl1 q \<longrightarrow> plane_at pl' q = (if q \<in> set ps then h q else plane_at pl1 q)"
  proof -
    have "(st(key \<mapsto> pl1)) key = Some pl1" by simp
    moreover have "set ps \<subseteq> set (raster_pixels g)" using Cons.prems(3) by simp
    ultimately show ?thesis
      using Cons.IH [of "st(key \<mapsto> pl1)" pl1] fits_same_shape [OF Cons.prems(2) sh1] that by blast
  qed
  have "plane_at pl1 q = (if q = p then h p else plane_at pl q)" if "in_plane pl q" for q
    using write_pixel_plane(3) [of st key pl y x, OF Cons.prems(1) r that] p by (simp add: pl1_def)
  then show ?case using w ih sh1 p in_plane_same_shape [OF sh1]
    by (intro exI [of _ pl']) (auto intro: same_shape_trans)
qed

section \<open>What a round reads\<close>

lemma process_pixel_frame:
  assumes "\<And>k. k \<noteq> dk \<Longrightarrow> st' k = st k" and "plane_key src \<noteq> dk"
    and "\<forall>m\<in>set (Masks src). mask_src m \<noteq> dk"
  shows "process_pixel st' src nd p = process_pixel st src nd p"
proof -
  have v: "stored_value st' (plane_key src) p = stored_value st (plane_key src) p"
    using assms(1,2) by (simp add: stored_value_def)
  have "mask_holds st' p m a = mask_holds st p m a" if "m \<in> set (Masks src)" for m a
    using assms(1) [of "mask_src m"] assms(3) that by (simp add: mask_holds_def stored_value_def)
  then have "fold_err (mask_holds st' p) (Masks src) True = fold_err (mask_holds st p) (Masks src) True"
    by (rule fold_err_cong)
  then show ?thesis by (simp only: process_pixel_def v)
qed

lemma Chunk_same_grid:
  assumes "XSize src = XSize dst" "YSize src = YSize dst" "chunk_w src = chunk_w dst" "chunk_h src = chunk_h dst"
  shows "Chunk src = Chunk dst"
proof -
  have tc: "tile_cols src = tile_cols dst" and nc: "NumChunks src = NumChunks dst"
    using assms by (simp_all add: tiling_defs)
  have "chunk_rect src = chunk_rect dst"
    by (simp add: fun_eq_iff chunk_rect_def tc assms)
  then show ?thesis by (simp add: fun_eq_iff Chunk_def nc)
qed

lemma zip_map_self: "zip ps (map h ps) = map (\<lambda>p. (p, h p)) ps"
  by (induction ps) simp_all

lemma map_err_map: "map_err h (map f xs) = map_err (h \<circ> f) xs"
  by (induction xs) simp_all

lemma rect_in_raster:
  assumes "valid_chunking g" "k \<in> set (chunk_ids g)"
  shows "set (rect_pixels (chunk_rect g k)) \<subseteq> set (raster_pixels g)"
proof
  fix p assume p: "p \<in> set (rect_pixels (chunk_rect g k))"
  obtain y x where yx: "p = (y, x)" by (cases p)
  have "1 \<le> k" "k \<le> NumChunks g" using assms(2) by (auto simp: set_chunk_ids)
  then show "p \<in> set (raster_pixels g)"
    using p chunk_rect_pixel_iff [OF assms(1)] by (auto simp: yx set_raster_pixels)
qed

lemma process_chunk_step:
  assumes c: "Chunk src k = Inr r" "Chunk dst k = Inr r"
    and pl: "st (plane_key dst) = Some pl" "fits pl dst"
    and sub: "set (rect_pixels r) \<subseteq> set (raster_pixels dst)"
    and f: "\<forall>p\<in>set (rect_pixels r). process_pixel st src (NoDataValue dst) p = Inr (f p)"
    and g: "\<forall>p\<in>set (rect_pixels r). repr_convert R (f p) = Inr (g p)"
  shows "\<exists>pl'. process_chunk R dst src k st = Inr (st(plane_key dst \<mapsto> pl')) \<and> same_shape pl pl' \<and>
           (\<forall>q. in_plane pl q \<longrightarrow> plane_at pl' q = (if q \<in> set (rect_pixels r) then g q else plane_at pl q))"
proof -
  have vs: "map_err (process_pixel st src (NoDataValue dst)) (rect_pixels r) = Inr (map f (rect_pixels r))"
    using f by (intro map_err_total) simp
  have cs: "map_err (repr_convert R) (map f (rect_pixels r)) = Inr (map g (rect_pixels r))"
    using g by (simp only: map_err_map) (intro map_err_total, simp)
  obtain pl' where w: "fold_err (\<lambda>(p, v) st. write_pixel st (plane_key dst) p v)
        (map (\<lambda>p. (p, g p)) (rect_pixels r)) st = Inr (st(plane_key dst \<mapsto> pl'))"
      and rest: "same_shape pl pl'"
        "\<forall>q. in_plane pl q \<longrightarrow> plane_at pl' q = (if q \<in> set (rect_pixels r) then g q else plane_at pl q)"
    using write_all [of st "plane_key dst" pl dst "rect_pixels r" g, OF pl sub] by blast
  have "Write st dst k (map g (rect_pixels r)) = Inr (st(plane_key dst \<mapsto> pl'))"
    using c(2) w by (simp add: Write_def zip_map_self)
  then show ?thesis using rest c(1) vs cs by (intro exI [of _ pl']) (simp add: process_chunk_def)
qed

lemma process_loop:
  assumes v: "valid_chunking dst" and cg: "Chunk src = Chunk dst"
    and fr: "plane_key src \<noteq> plane_key dst" "\<forall>m\<in>set (Masks src). mask_src m \<noteq> plane_key dst"
    and ks: "set ks \<subseteq> set (chunk_ids dst)"
    and pl: "st (plane_key dst) = Some pl" "fits pl dst"
    and f: "\<forall>p\<in>set (raster_pixels dst). process_pixel st src (NoDataValue dst) p = Inr (f p)"
    and g: "\<forall>p\<in>set (raster_pixels dst). repr_convert R (f p) = Inr (g p)"
  shows "\<exists>pl'. fold_err (process_chunk R dst src) ks st = Inr (st(plane_key dst \<mapsto> pl')) \<and> same_shape pl pl' \<and>
           (\<forall>q. in_plane pl q \<longrightarrow> plane_at pl' q =
              (if \<exists>k\<in>set ks. q \<in> set (rect_pixels (chunk_rect dst k)) then g q else plane_at pl q))"
  using ks pl f
proof (induction ks arbitrary: st pl)
  case Nil
  then show ?case by (intro exI [of _ pl]) (simp add: map_upd_triv)
next
  case (Cons k ks)
  let ?dk = "plane_key dst" and ?r = "chunk_rect dst k"
  have k: "k \<in> set (chunk_ids dst)" using Cons.prems(1) by simp
  then have kr: "Chunk dst k = Inr ?r" by (auto simp: Chunk_def set_chunk_ids)
  have sub: "set (rect_pixels ?r) \<subseteq> set (raster_pixels dst)" by (rule rect_in_raster [OF v k])
  obtain pl1 where s1: "process_chunk R dst src k st = Inr (st(?dk \<mapsto> pl1))" "same_shape pl pl1"
      "\<forall>q. in_plane pl q \<longrightarrow> plane_at pl1 q = (if q \<in> set (rect_pixels ?r) then g q else plane_at pl q)"
  proof -
    have c: "Chunk src k = Inr ?r" using cg kr by simp
    have "\<forall>p\<in>set (rect_pixels ?r). process_pixel st src (NoDataValue dst) p = Inr (f p)"
      using sub Cons.prems(4) by blast
    moreover have "\<forall>p\<in>set (rect_pixels ?r). repr_convert R (f p) = Inr (g p)"
      using sub g by blast
    ultimately show ?thesis
      using process_chunk_step [of src k ?r dst st pl f R g, OF c kr Cons.prems(2,3) sub] that by blast
  qed
  have f1: "\<forall>p\<in>set (raster_pixels dst). process_pixel (st(?dk \<mapsto> pl1)) src (NoDataValue dst) p = Inr (f p)"
    using process_pixel_frame [of ?dk "st(?dk \<mapsto> pl1)" st src] fr Cons.prems(4) by simp
  obtain pl' where ih: "fold_err (process_chunk R dst src) ks (st(?dk \<mapsto> pl1)) = Inr ((st(?dk \<mapsto> pl1))(?dk \<mapsto> pl'))"
      "same_shape pl1 pl'"
      "\<forall>q. in_plane pl1 q \<longrightarrow> plane_at pl' q =
         (if \<exists>k\<in>set ks. q \<in> set (rect_pixels (chunk_rect dst k)) then g q else plane_at pl1 q)"
  proof -
    have "set ks \<subseteq> set (chunk_ids dst)" using Cons.prems(1) by simp
    moreover have "(st(?dk \<mapsto> pl1)) ?dk = Some pl1" by simp
    ultimately show ?thesis
      using Cons.IH [of "st(?dk \<mapsto> pl1)" pl1] fits_same_shape [OF Cons.prems(3) s1(2)] f1 that by blast
  qed
  show ?case
    using s1 ih in_plane_same_shape [OF s1(2)] by (intro exI [of _ pl']) (auto intro: same_shape_trans)
qed

lemma stored_value_plane_at:
  "st key = Some pl \<Longrightarrow> fits pl g \<Longrightarrow> p \<in> set (raster_pixels g) \<Longrightarrow> stored_value st key p = Inr (plane_at pl p)"
  by (cases p) (auto simp: stored_value_def plane_at_def fits_def set_raster_pixels)

lemma union_chunk_rects:
  "valid_chunking g \<Longrightarrow> q \<in> set (raster_pixels g) \<Longrightarrow> \<exists>k\<in>set (chunk_ids g). q \<in> set (rect_pixels (chunk_rect g k))"
  using set_chunk_pixels [of g] by (auto simp: chunk_pixels_def)

lemma Process_writes_store:
  assumes v: "valid_chunking dst"
    and grid: "XSize src = XSize dst" "YSize src = YSize dst" "chunk_w src = chunk_w dst" "chunk_h src = chunk_h dst"
    and fr: "plane_key src \<noteq> plane_key dst" "\<forall>m\<in>set (Masks src). mask_src m \<noteq> plane_key dst"
    and pl: "st (plane_key dst) = Some pl" "fits pl dst"
    and f: "\<forall>p\<in>set (raster_pixels dst). process_pixel st src (NoDataValue dst) p = Inr (f p)"
    and g: "\<forall>p\<in>set (raster_pixels dst). repr_convert (Process_dispatch (DataType dst)) (f p) = Inr (g p)"
  shows "\<exists>st'. Process st dst src = Inr st' \<and>
           (\<forall>p\<in>set (raster_pixels dst). stored_value st' (plane_key dst) p = Inr (g p)) \<and>
           (\<forall>k. k \<noteq> plane_key dst \<longrightarrow> st' k = st k)"
proof -
  obtain pl' where l: "GeoRasterIO_Process (Process_dispatch (DataType dst)) st dst src = Inr (st(plane_key dst \<mapsto> pl'))"
      "same_shape pl pl'"
      "\<forall>q. in_plane pl q \<longrightarrow> plane_at pl' q =
         (if \<exists>k\<in>set (chunk_ids dst). q \<in> set (rect_pixels (chunk_rect dst k)) then g q else plane_at pl q)"
    using process_loop [OF v Chunk_same_grid [OF grid] fr _ pl f g, of "chunk_ids dst"]
    unfolding GeoRasterIO_Process_def by blast
  have fit: "fits pl' dst" by (rule fits_same_shape [OF pl(2) l(2)])
  have "stored_value (st(plane_key dst \<mapsto> pl')) (plane_key dst) p = Inr (g p)" if "p \<in> set (raster_pixels dst)" for p
    using stored_value_plane_at [of "st(plane_key dst \<mapsto> pl')" "plane_key dst" pl' dst p] fit that l(3)
      union_chunk_rects [OF v that] fits_in_plane [OF pl(2) that] by simp
  then show ?thesis using l(1) unfolding Process_def by (intro exI [of _ "st(plane_key dst \<mapsto> pl')"]) simp
qed

text \<open>
  C23. Processing a band into a destination of the same grid, whose plane is
  stored and large enough, writes every pixel of the destination with the
  source's pipeline value converted to the destination's representation,
  and leaves every other plane of the store as it was.
\<close>

theorem Process_writes:
  assumes v: "valid_chunking dst"
    and grid: "XSize src = XSize dst" "YSize src = YSize dst" "chunk_w src = chunk_w dst" "chunk_h src = chunk_h dst"
    and fr: "plane_key src \<noteq> plane_key dst" "\<forall>m\<in>set (Masks src). mask_src m \<noteq> plane_key dst"
    and pl: "st (plane_key dst) = Some pl" "fits pl dst"
    and f: "\<forall>p\<in>set (raster_pixels dst). process_pixel st src (NoDataValue dst) p = Inr (f p)"
    and g: "\<forall>p\<in>set (raster_pixels dst). repr_convert (Process_dispatch (DataType dst)) (f p) = Inr (g p)"
  shows "\<exists>st'. Process st dst src = Inr st' \<and>
           (\<forall>p\<in>set (raster_pixels dst). stored_value st' (plane_key dst) p = Inr (g p)) \<and>
           (\<forall>k. k \<noteq> plane_key dst \<longrightarrow> st' k = st k)"
  using assms by (rule Process_writes_store)

lemma ex_process_pixel:
  "process_pixel ex_st ex_src (-9999) (0, 0) = Inr (-9999)"
  "process_pixel ex_st ex_src (-9999) (0, Suc 0) = Inr 2"
  "process_pixel ex_st ex_src (-9999) (0, 2) = Inr 4"
  by (simp_all add: process_pixel_def ex_st_def ex_src_def ex_band_def stored_value_def mask_holds_def
      plane_key_def func_apply_def)

lemma ex_raster_pixels: "raster_pixels ex_dst = [(0, 0), (0, 1), (0, 2)]"
  by (simp add: raster_pixels_def ex_dst_def ex_band_def upt_rec)

lemma process_chunk_dst_cong:
  fixes d d' :: "'a GeoRaster_scheme"
  assumes c: "Chunk d = Chunk d'" and n: "NoDataValue d = NoDataValue d'" and k: "plane_key d = plane_key d'"
  shows "process_chunk R d src = process_chunk R d' src"
  unfolding fun_eq_iff process_chunk_def Write_def by (simp only: c n k simp_thms)

text \<open>
  C24. A destination of a type outside the seven of the \<open>switch\<close> (complex
  or unknown) is processed exactly as a \<open>GDT_Byte\<close> destination: the
  \<open>default\<close> branch converts to \<open>unsigned char\<close> instead of failing.
\<close>

theorem Process_default_as_byte:
  assumes "DataType dst \<notin> {GDT_Byte, GDT_UInt16, GDT_Int16, GDT_UInt32, GDT_Int32, GDT_Float32, GDT_Float64}"
  shows "Process st dst src = Process st (dst\<lparr>DataType := GDT_Byte\<rparr>) src"
proof -
  have r: "Process_dispatch (DataType dst) = R_uchar" using assms by (cases "DataType dst") simp_all
  have "Chunk (dst\<lparr>DataType := GDT_Byte\<rparr>) = Chunk dst" by (rule Chunk_same_grid) simp_all
  then have "process_chunk R_uchar (dst\<lparr>DataType := GDT_Byte\<rparr>) src = process_chunk R_uchar dst src"
    by (rule process_chunk_dst_cong) (simp_all add: plane_key_def)
  moreover have "chunk_ids (dst\<lparr>DataType := GDT_Byte\<rparr>) = chunk_ids dst"
    by (simp add: chunk_ids_def tiling_defs)
  ultimately show ?thesis by (simp add: Process_def GeoRasterIO_Process_def r)
qed

theorem Process_default_as_byte_witness:
  "Process ex_st (ex_dst\<lparr>DataType := GDT_CFloat32\<rparr>) ex_src = Process ex_st (ex_dst\<lparr>DataType := GDT_Byte\<rparr>) ex_src"
  using Process_default_as_byte [of "ex_dst\<lparr>DataType := GDT_CFloat32\<rparr>" ex_st ex_src] by simp

lemma ex_keys: "plane_key ex_dst = (1, 1)" "plane_key ex_src = (0, 1)"
  by (simp_all add: plane_key_def ex_dst_def ex_src_def ex_band_def)

lemma ex_process_facts:
  shows "valid_chunking ex_dst"
    and "XSize ex_src = XSize ex_dst" "YSize ex_src = YSize ex_dst"
    and "chunk_w ex_src = chunk_w ex_dst" "chunk_h ex_src = chunk_h ex_dst"
    and "plane_key ex_src \<noteq> plane_key ex_dst" "\<forall>m\<in>set (Masks ex_src). mask_src m \<noteq> plane_key ex_dst"
    and "ex_st (plane_key ex_dst) = Some [[7, 7, 7]]" "fits [[7, 7, 7]] ex_dst"
    and "\<forall>p\<in>set (raster_pixels ex_dst). process_pixel ex_st ex_src (NoDataValue ex_dst) p = Inr (ex_out p)"
    and "\<forall>p\<in>set (raster_pixels ex_dst). repr_convert (Process_dispatch (DataType ex_dst)) (ex_out p) = Inr (ex_out p)"
proof -
  have nd: "NoDataValue ex_dst = -9999" and ty: "DataType ex_dst = GDT_Float32" by (simp_all add: ex_dst_def)
  show "valid_chunking ex_dst" by (simp add: valid_chunking_def ex_dst_def ex_band_def)
  show "XSize ex_src = XSize ex_dst" "YSize ex_src = YSize ex_dst"
    "chunk_w ex_src = chunk_w ex_dst" "chunk_h ex_src = chunk_h ex_dst"
    by (simp_all add: ex_dst_def ex_src_def ex_band_def)
  show "plane_key ex_src \<noteq> plane_key ex_dst" by (simp only: ex_keys) simp
  show "\<forall>m\<in>set (Masks ex_src). mask_src m \<noteq> plane_key ex_dst"
    by (simp only: ex_keys) (simp add: ex_src_def ex_band_def)
  show "ex_st (plane_key ex_dst) = Some [[7, 7, 7]]" by (simp add: ex_keys ex_st_def)
  show "fits [[7, 7, 7]] ex_dst" by (simp add: fits_def ex_dst_def ex_band_def)
  show "\<forall>p\<in>set (raster_pixels ex_dst). process_pixel ex_st ex_src (NoDataValue ex_dst) p = Inr (ex_out p)"
    by (simp add: nd ex_raster_pixels ex_process_pixel ex_out_def)
  show "\<forall>p\<in>set (raster_pixels ex_dst). repr_convert (Process_dispatch (DataType ex_dst)) (ex_out p) = Inr (ex_out p)"
    by (simp add: ty ex_raster_pixels repr_convert_def)
qed

theorem Process_writes_witness:
  "\<exists>st'. Process ex_st ex_dst ex_src = Inr st' \<and> stored_value st' (1, 1) (0, 0) = Inr (-9999) \<and>
     stored_value st' (1, 1) (0, 1) = Inr 2 \<and> stored_value st' (1, 1) (0, 2) = Inr 4 \<and>
     st' (0, 1) = Some [[0, 1, 2]]"
proof -
  obtain st' where p: "Process ex_st ex_dst ex_src = Inr st'"
      "\<forall>p\<in>set (raster_pixels ex_dst). stored_value st' (plane_key ex_dst) p = Inr (ex_out p)"
      "\<forall>k. k \<noteq> plane_key ex_dst \<longrightarrow> st' k = ex_st k"
    using Process_writes [OF ex_process_facts] by blast
  have "st' (0, 1) = ex_st (0, 1)" using p(3) by (simp add: ex_keys)
  then show ?thesis using p(1,2) by (simp add: ex_raster_pixels ex_keys ex_out_def ex_st_def)
qed

end
