(* ===== verification/Info.thy ===== *)
theory Info
  imports Image Utils
begin

text \<open>
  Text reports: \<open>GeoRaster::Info\<close> (\<open>GeoRaster.cpp\<close>, lines 58--80) and
  \<open>GeoImage::Info\<close> (\<open>GeoImage.cpp\<close>, lines 31--52), built with
  \<open>std::stringstream\<close>, and \<open>to_string\<close> (\<open>Utils.h\<close>, lines 18--22).  Unsigned
  numbers and the \<open>GDALDataType\<close> enumeration print as decimal digits;
  doubles, mask reports and what GDAL says about the dataset (name,
  product, reference count, handle address, corners) are parameters.  A
  report with statistics calls \<open>ComputeStats\<close>, which fills the band's cache:
  the band comes back with the text.
\<close>

section \<open>Numbers in a stream\<close>

text \<open>
  \<open>to_string\<close> (\<open>Utils.h\<close>, lines 18--22) of an unsigned integer, and the
  insertion of an unsigned integer into a stream: its decimal digits.
\<close>

function to_string_nat :: "nat \<Rightarrow> string" where
  "to_string_nat n =
     (if n < 10 then [char_of (48 + n)] else to_string_nat (n div 10) @ [char_of (48 + n mod 10)])"
  by auto
termination by (relation "measure id") auto

declare to_string_nat.simps [simp del]

text \<open>
  \<open>GDALDataType\<close> is a plain enumeration: a stream prints its number
  (GDAL's \<open>gdal.h\<close>, not among the sources).
\<close>

fun gdt_code :: "GDALDataType \<Rightarrow> nat" where
  "gdt_code GDT_Unknown = 0"
| "gdt_code GDT_Byte = 1"
| "gdt_code GDT_UInt16 = 2"
| "gdt_code GDT_Int16 = 3"
| "gdt_code GDT_UInt32 = 4"
| "gdt_code GDT_Int32 = 5"
| "gdt_code GDT_Float32 = 6"
| "gdt_code GDT_Float64 = 7"
| "gdt_code GDT_CInt16 = 8"
| "gdt_code GDT_CInt32 = 9"
| "gdt_code GDT_CFloat32 = 10"
| "gdt_code GDT_CFloat64 = 11"

definition NL :: string where "NL = [CHR 0x0A]"
definition TAB :: string where "TAB = [CHR 0x09]"

text \<open>
  What the model leaves open: how a stream formats a floating-point value
  (precision and exponent rules of \<open>operator<<\<close>) and \<open>GeoMask::Info()\<close>,
  declared in a header that is not among the sources.  Both are parameters
  of the reports.
\<close>

record ostream_fmt =
  fmt_real :: "fval \<Rightarrow> string"
  fmt_mask :: "GeoMask \<Rightarrow> string"

section \<open>\<open>GeoRaster::Info\<close>\<close>

text \<open>The statistics line (lines 69--70), from the \<open>CImg<float>\<close> \<open>ComputeStats\<close> returns.\<close>

definition stats_line :: "ostream_fmt \<Rightarrow> Stats \<Rightarrow> string" where
  "stats_line F s =
     TAB @ TAB @ ''Min = '' @ fmt_real F (Fin (smin s)) @ '', Max = '' @ fmt_real F (Fin (smax s)) @
     '', Mean = '' @ fmt_real F (smean s) @ '' =/- '' @ fmt_real F (sstdev s) @ NL"

text \<open>Lines 60--66: size, type and description, then gain, offset and no-data.\<close>

definition band_head :: "ostream_fmt \<Rightarrow> 'a GeoRaster_scheme \<Rightarrow> string" where
  "band_head F b =
     to_string_nat (XSize b) @ '' x '' @ to_string_nat (YSize b) @ '' '' @
     to_string_nat (gdt_code (DataType b)) @ '': '' @ Description b @
     TAB @ TAB @ ''Gain = '' @ fmt_real F (Fin (Gain b)) @ '', Offset = '' @ fmt_real F (Fin (Offset b)) @
     (if NoData b then '', NoData = '' @ fmt_real F (Fin (NoDataValue b)) @ NL else NL)"

text \<open>Lines 72--76: the functions and the masks.\<close>

definition band_tail :: "ostream_fmt \<Rightarrow> 'a GeoRaster_scheme \<Rightarrow> string" where
  "band_tail F b =
     (if Functions b = [] then [] else TAB @ TAB @ ''Functions:'' @ NL) @
     concat (map (\<lambda>f. TAB @ TAB @ TAB @ Function f @ '' '' @ fmt_real F (Fin (Operand f)) @ NL) (Functions b)) @
     (if Masks b = [] then [] else TAB @ ''Masks:'' @ NL) @
     concat (map (\<lambda>m. TAB @ TAB @ TAB @ fmt_mask F m @ NL) (Masks b))"

text \<open>
  \<open>GeoRaster::Info(showstats)\<close> (lines 58--80).  The method is \<open>const\<close>, but
  \<open>ComputeStats\<close> fills the band's (mutable) cache: the band is returned
  with the text.
\<close>

definition GeoRaster_Info ::
  "ostream_fmt \<Rightarrow> store \<Rightarrow> bool \<Rightarrow> 'a GeoRaster_scheme \<Rightarrow> ('a GeoRaster_scheme \<times> string) result" where
  "GeoRaster_Info F st showstats b =
     (if showstats
      then ebind (ComputeStats st b) (\<lambda>(b', s). Inr (b', band_head F b @ stats_line F s @ band_tail F b))
      else Inr (b, band_head F b @ band_tail F b))"

section \<open>\<open>GeoImage::Info\<close>\<close>

text \<open>
  What \<open>GeoImage::Info\<close> prints of the dataset besides the bands: the file
  name, the product, the handle's reference count and address, and the
  corner coordinates, all from GDAL and the \<open>GeoData\<close> base class.
\<close>

record image_env =
  env_filename :: string
  env_product :: string
  env_use_count :: nat
  env_handle :: string
  env_top_left :: "real \<times> real"
  env_lower_right :: "real \<times> real"

definition image_head :: "image_env \<Rightarrow> ostream_fmt \<Rightarrow> 'a GeoImage_scheme \<Rightarrow> string" where
  "image_head E F img =
     env_filename E @ '' - '' @ to_string_nat (length (RasterBands img)) @ '' bands ('' @
       to_string_nat (XSize img) @ ''x'' @ to_string_nat (YSize img) @ '') '' @ env_product E @ NL @
     TAB @ ''GeoData References: '' @ to_string_nat (env_use_count E) @ '' (&'' @ env_handle E @ '')'' @ NL @
     TAB @ ''Geo Coordinates (top left): '' @ fmt_real F (Fin (fst (env_top_left E))) @ '', '' @
       fmt_real F (Fin (snd (env_top_left E))) @ NL @
     TAB @ ''Geo Coordinates (lower right): '' @ fmt_real F (Fin (fst (env_lower_right E))) @ '', '' @
       fmt_real F (Fin (snd (env_lower_right E))) @ NL"

text \<open>One iteration of the band loop (lines 41--45): band \<open>i+1\<close> with its colour.\<close>

definition band_entry ::
  "ostream_fmt \<Rightarrow> store \<Rightarrow> bool \<Rightarrow> colors \<Rightarrow> nat \<times> GeoRaster \<Rightarrow> (GeoRaster \<times> string) result" where
  "band_entry F st stats cs ib =
     (case ib of (i, b) \<Rightarrow>
        let color = color_name cs (i + 1);
            label = (if color = [] then [] else '' ('' @ color @ '')'')
        in ebind (GeoRaster_Info F st stats b)
             (\<lambda>(b', s). Inr (b', TAB @ ''Band '' @ to_string_nat (i + 1) @ label @ '': '' @ s)))"

definition GeoImage_Info ::
  "image_env \<Rightarrow> ostream_fmt \<Rightarrow> store \<Rightarrow> bool \<Rightarrow> bool \<Rightarrow> 'a GeoImage_scheme \<Rightarrow>
     ('a GeoImage_scheme \<times> string) result" where
  "GeoImage_Info E F st bandinfo stats img =
     (if bandinfo
      then ebind (map_err (band_entry F st stats (Colors img)) (enumerate 0 (RasterBands img)))
             (\<lambda>rs. Inr (img\<lparr>RasterBands := map fst rs\<rparr>, image_head E F img @ concat (map snd rs)))
      else Inr (img, image_head E F img))"

text \<open>Examples: every number printed as \<open>#\<close>, and a dataset of the five-band image.\<close>

definition ex_fmt :: ostream_fmt where
  "ex_fmt = \<lparr>fmt_real = (\<lambda>_. ''#''), fmt_mask = (\<lambda>_. ''mask'')\<rparr>"

definition ex_env :: image_env where
  "ex_env = \<lparr>env_filename = ''five.tif'', env_product = ''L'', env_use_count = 1, env_handle = ''0x1'',
     env_top_left = (0, 0), env_lower_right = (2, 1)\<rparr>"

section \<open>Properties\<close>

lemma digit_char: "k < 10 \<Longrightarrow> of_char (char_of (48 + k) :: char) = (48 + k :: nat)"
  by (simp add: of_char_of)

lemma to_string_nat_digits: "c \<in> set (to_string_nat n) \<Longrightarrow> is_digit c \<and> \<not> is_space c"
proof (induction n rule: to_string_nat.induct)
  case (1 n)
  have d: "is_digit (char_of (48 + k)) \<and> \<not> is_space (char_of (48 + k))" if "k < 10" for k :: nat
  proof -
    have "char_of (48 + k) \<noteq> CHR '' ''"
    proof
      assume "char_of (48 + k) = CHR '' ''"
      then have "of_char (char_of (48 + k) :: char) = (of_char CHR '' '' :: nat)" by simp
      then show False using digit_char [OF that] by simp
    qed
    then show ?thesis using digit_char [OF that] that by (simp add: is_digit_def is_space_def less_eq_char_def)
  qed
  show ?case
  proof (cases "n < 10")
    case True
    then have "c = char_of (48 + n)" using 1(2) by (subst (asm) to_string_nat.simps) simp
    then show ?thesis using True d by simp
  next
    case False
    then have "c \<in> set (to_string_nat (n div 10)) \<or> c = char_of (48 + n mod 10)"
      using 1(2) by (subst (asm) to_string_nat.simps) auto
    then show ?thesis using 1(1) False d [of "n mod 10"] by auto
  qed
qed

lemma to_string_nat_value:
  "foldl (\<lambda>a c. 10 * a + digit_val c) 0 (to_string_nat n) = int n"
proof (induction n rule: to_string_nat.induct)
  case (1 n)
  have d: "digit_val (char_of (48 + k)) = int k" if "k < 10" for k :: nat
    using digit_char [OF that] by (simp add: digit_val_def)
  have e: "10 * int (n div 10) + int (n mod 10) = int n"
  proof -
    have "int n = int (10 * (n div 10) + n mod 10)" by simp
    then show ?thesis unfolding of_nat_add of_nat_mult of_nat_numeral by (rule sym)
  qed
  show ?case
  proof (cases "n < 10")
    case True
    then show ?thesis using d by (subst to_string_nat.simps) simp
  next
    case False
    then show ?thesis using 1 d [of "n mod 10"] e by (subst to_string_nat.simps) simp
  qed
qed

lemma to_string_nat_hd: "\<exists>c s. to_string_nat n = c # s \<and> is_digit c \<and> \<not> is_space c"
proof -
  have "to_string_nat n \<noteq> []" by (subst to_string_nat.simps) simp
  then obtain c s where "to_string_nat n = c # s" by (cases "to_string_nat n") auto
  then show ?thesis using to_string_nat_digits [of c n] by simp
qed

lemma atoi_to_string:
  assumes "int n \<le> INT_MAX"
  shows "atoi (to_string_nat n) = Inr (int n)"
proof -
  obtain c s where cs: "to_string_nat n = c # s" "is_digit c" "\<not> is_space c"
    using to_string_nat_hd by blast
  have sg: "c \<noteq> CHR ''-''" "c \<noteq> CHR ''+''" using cs(2) by (auto simp: is_digit_def less_eq_char_def)
  have ts: "takeWhile is_digit s = s"
    using to_string_nat_digits [of _ n] cs(1) by (simp add: takeWhile_eq_all_conv)
  have v: "foldl (\<lambda>a c. 10 * a + digit_val c) (digit_val c) s = int n"
    using to_string_nat_value [of n] cs(1) by simp
  have "INT_MIN \<le> int n" by (simp add: INT_MIN_def)
  then show ?thesis
    using assms cs sg ts v by (simp add: atoi_def Let_def del: to_string_nat.simps takeWhile_eq_all_conv)
qed

lemma nl_not_digit: "CHR 0x0A \<notin> set (to_string_nat n)"
proof
  assume "CHR 0x0A \<in> set (to_string_nat n)"
  then have "is_digit (CHR 0x0A)" using to_string_nat_digits by blast
  then show False by (simp add: is_digit_def less_eq_char_def)
qed

lemma count_nl_NL [simp]: "count_list NL (CHR 0x0A) = 1" and count_nl_TAB [simp]: "count_list TAB (CHR 0x0A) = 0"
  by (simp_all add: NL_def TAB_def)

lemma count_nl_free: "CHR 0x0A \<notin> set s \<Longrightarrow> count_list s (CHR 0x0A) = 0"
  by (simp add: count_list_0_iff)

lemma count_list_concat_const:
  "(\<And>x. x \<in> set xs \<Longrightarrow> count_list (f x) c = 1) \<Longrightarrow> count_list (concat (map f xs)) c = length xs"
  by (induction xs) simp_all

lemma band_head_lines:
  assumes "\<forall>v. CHR 0x0A \<notin> set (fmt_real F v)" and "CHR 0x0A \<notin> set (Description b)"
  shows "count_list (band_head F b) (CHR 0x0A) = 1"
  using assms by (simp add: band_head_def count_nl_free nl_not_digit)

lemma band_tail_lines:
  assumes "\<forall>v. CHR 0x0A \<notin> set (fmt_real F v)" and "\<forall>m. CHR 0x0A \<notin> set (fmt_mask F m)"
    and "\<forall>f\<in>set (Functions b). CHR 0x0A \<notin> set (Function f)"
  shows "count_list (band_tail F b) (CHR 0x0A) =
           (if Functions b = [] then 0 else Suc (length (Functions b))) +
           (if Masks b = [] then 0 else Suc (length (Masks b)))"
proof -
  have "count_list (concat (map (\<lambda>f. TAB @ TAB @ TAB @ Function f @ '' '' @ fmt_real F (Fin (Operand f)) @ NL)
          (Functions b))) (CHR 0x0A) = length (Functions b)"
    using assms(1,3) by (intro count_list_concat_const) (simp add: count_nl_free)
  moreover have "count_list (concat (map (\<lambda>m. TAB @ TAB @ TAB @ fmt_mask F m @ NL) (Masks b))) (CHR 0x0A) =
      length (Masks b)"
    using assms(2) by (intro count_list_concat_const) (simp add: count_nl_free)
  ultimately show ?thesis by (simp add: band_tail_def)
qed

lemma stats_line_lines:
  "\<forall>v. CHR 0x0A \<notin> set (fmt_real F v) \<Longrightarrow> count_list (stats_line F s) (CHR 0x0A) = 1"
  by (simp add: stats_line_def count_nl_free)

text \<open>
  C27. When no formatted value, description, function name or mask report
  contains a line break, the report of a band has one line for size, type,
  description, gain, offset and no-data together, one for the statistics
  when asked for, and a heading line plus one line per function and per
  mask when there are any.
\<close>

theorem GeoRaster_Info_lines:
  assumes "\<forall>v. CHR 0x0A \<notin> set (fmt_real F v)" and "\<forall>m. CHR 0x0A \<notin> set (fmt_mask F m)"
    and "CHR 0x0A \<notin> set (Description b)" and "\<forall>f\<in>set (Functions b). CHR 0x0A \<notin> set (Function f)"
    and "GeoRaster_Info F st showstats b = Inr (b', s)"
  shows "count_list s (CHR 0x0A) =
           1 + (if showstats then 1 else 0) +
           (if Functions b = [] then 0 else Suc (length (Functions b))) +
           (if Masks b = [] then 0 else Suc (length (Masks b)))"
proof (cases showstats)
  case True
  then obtain b'' sv where "s = band_head F b @ stats_line F sv @ band_tail F b"
    using assms(5) by (auto simp: GeoRaster_Info_def ebind_Inr_iff split: prod.splits)
  then show ?thesis
    using True band_head_lines [OF assms(1,3)] band_tail_lines [OF assms(1,2,4)] stats_line_lines [OF assms(1)]
    by simp
next
  case False
  then have "s = band_head F b @ band_tail F b" using assms(5) by (auto simp: GeoRaster_Info_def)
  then show ?thesis
    using False band_head_lines [OF assms(1,3)] band_tail_lines [OF assms(1,2,4)] by simp
qed

theorem GeoRaster_Info_lines_witness:
  "\<exists>s. GeoRaster_Info ex_fmt Map.empty False (ex_band\<lparr>Functions := [\<lparr>Function = ''scale'', Operand = 2\<rparr>]\<rparr>) =
         Inr (ex_band\<lparr>Functions := [\<lparr>Function = ''scale'', Operand = 2\<rparr>]\<rparr>, s) \<and>
       count_list s (CHR 0x0A) = 3"
proof -
  let ?b = "ex_band\<lparr>Functions := [\<lparr>Function = ''scale'', Operand = 2\<rparr>]\<rparr>"
  have r: "GeoRaster_Info ex_fmt Map.empty False ?b = Inr (?b, band_head ex_fmt ?b @ band_tail ex_fmt ?b)"
    by (simp add: GeoRaster_Info_def)
  have "\<forall>v. CHR 0x0A \<notin> set (fmt_real ex_fmt v)" "\<forall>m. CHR 0x0A \<notin> set (fmt_mask ex_fmt m)"
    "CHR 0x0A \<notin> set (Description ?b)" "\<forall>f\<in>set (Functions ?b). CHR 0x0A \<notin> set (Function f)"
    by (simp_all add: ex_fmt_def ex_band_def)
  from GeoRaster_Info_lines [OF this r] have "count_list (band_head ex_fmt ?b @ band_tail ex_fmt ?b) (CHR 0x0A) = 3"
    by (simp add: ex_band_def)
  then show ?thesis using r by blast
qed

lemma find_first_of_clean_None:
  assumes "drop start s = t" and "set t \<inter> set m = {}"
  shows "find_first_of s m start = None"
proof -
  have "s ! i \<notin> set m" if "i \<in> set [start..<length s]" for i
  proof -
    have "s ! i = t ! (i - start)" "i - start < length t" using that assms(1) by auto
    then show ?thesis using assms(2) nth_mem by fastforce
  qed
  then show ?thesis by (simp add: find_first_of_def find_None_iff)
qed

lemma find_first_of_clean_Some:
  assumes "drop start s = t @ c # r" and "set t \<inter> set m = {}" and "c \<in> set m"
  shows "find_first_of s m start = Some (start + length t)"
proof -
  have "length s - start = length t + Suc (length r)" using arg_cong [OF assms(1), of length] by simp
  then have len: "start + length t < length s" by arith
  have nth: "s ! (start + j) = (t @ c # r) ! j" if "start + j < length s" for j
  proof -
    have "start \<le> length s" using len by simp
    then have "drop start s ! j = s ! (start + j)" by (rule nth_drop)
    then show ?thesis using assms(1) by simp
  qed
  have "[start..<length s] ! length t = start + length t" using len by simp
  moreover have "s ! (start + length t) \<in> set m" using nth [OF len] assms(3) by (simp add: nth_append)
  moreover have "s ! ([start..<length s] ! j) \<notin> set m" if "j < length t" for j
  proof -
    have "s ! (start + j) = t ! j" using nth [of j] that len by (simp add: nth_append)
    then show ?thesis using that len assms(2) nth_mem by fastforce
  qed
  moreover have "length t < length [start..<length s]" using len by simp
  moreover have "[start..<length s] ! j = start + j" if "j < length t" for j using that len by simp
  ultimately show ?thesis unfolding find_first_of_def find_Some_iff
    by (intro exI [of _ "length t"]) auto
qed

lemma split_loop_clean:
  assumes c: "c \<in> set m" and clean: "\<forall>t\<in>set ts. set t \<inter> set m = {}" and ne: "ts \<noteq> []"
  shows "drop start s = join [c] ts \<Longrightarrow> start \<le> length s \<Longrightarrow>
           split_loop s m False False start acc = Inr (acc @ ts)"
  using clean ne
proof (induction ts arbitrary: start acc)
  case Nil
  then show ?case by simp
next
  case (Cons t ts)
  show ?case
  proof (cases ts)
    case Nil
    then have d: "drop start s = t" using Cons.prems by simp
    have "find_first_of s m start = None"
      by (rule find_first_of_clean_None [OF d]) (use Cons.prems in simp)
    then show ?thesis
      using d Cons.prems Nil by (simp add: split_loop_unfold [of s m False False start acc] split_find_def substr_Inr)
  next
    case (Cons u us)
    then have d: "drop start s = t @ c # join [c] ts" using Cons.prems by simp
    have f: "find_first_of s m start = Some (start + length t)"
      by (rule find_first_of_clean_Some [OF d _ c]) (use Cons.prems in simp)
    have "length s - start = length t + Suc (length (join [c] ts))" using arg_cong [OF d, of length] by simp
    then have l: "start + length t + 1 \<le> length s" by arith
    have d': "drop (start + length t + 1) s = join [c] ts"
    proof -
      have "drop (start + length t + 1) s = drop (length t + 1) (drop start s)" by (simp add: add.commute add.left_commute)
      then show ?thesis using d by simp
    qed
    have ih: "split_loop s m False False (start + length t + 1) (acc @ [t]) = Inr ((acc @ [t]) @ ts)"
      using Cons.IH [OF d' l] Cons.prems \<open>ts = u # us\<close> by simp
    have "take (length t) (drop start s) = t" using d by simp
    then show ?thesis
      using f ih Cons.prems by (simp add: split_loop_unfold [of s m False False start acc] split_find_def substr_Inr)
  qed
qed

lemma digits_clean: "set (to_string_nat n) \<inter> set '' ,'' = {}"
proof -
  have "c \<noteq> CHR '' '' \<and> c \<noteq> CHR '',''" if "c \<in> set (to_string_nat n)" for c
    using to_string_nat_digits [OF that] by (auto simp: is_digit_def less_eq_char_def)
  then show ?thesis by auto
qed

lemma parse_token_to_string:
  assumes "int n \<le> INT_MAX"
  shows "parse_token (to_string_nat n) = Inr [of_nat n]"
proof -
  have "CHR ''-'' \<notin> set (to_string_nat n)"
    using to_string_nat_digits [of "CHR ''-''" n] by (auto simp: is_digit_def less_eq_char_def)
  then have "find_str (to_string_nat n) ''-'' 0 = None"
    by (auto simp: find_str_def find_None_iff take_Suc_conv_app_nth in_set_conv_nth)
  then show ?thesis using atoi_to_string [OF assms] by (simp add: parse_token_def)
qed

text \<open>
  C29. \<open>ParseToInts\<close> reads back a non-empty comma-separated list of
  unsigned numbers printed with \<open>to_string\<close>, each at most \<open>INT_MAX\<close>: the
  split on \<open>" ,"\<close> gives the printed tokens and \<open>atoi\<close> each number.
\<close>

theorem ParseToInts_to_string:
  assumes "ns \<noteq> []" and "\<forall>n\<in>set ns. int n \<le> INT_MAX"
  shows "ParseToInts (join '','' (map to_string_nat ns)) = Inr (map of_nat ns)"
proof -
  let ?ts = "map to_string_nat ns"
  have "split_loop (join '','' ?ts) '' ,'' False False 0 [] = Inr ([] @ ?ts)"
    by (rule split_loop_clean) (use assms(1) digits_clean in auto)
  moreover have "map_err parse_token ?ts = Inr (map (\<lambda>n. [of_nat n]) ns)"
    using assms(2) parse_token_to_string by (induction ns) auto
  ultimately show ?thesis by (simp add: ParseToInts_def Split_def comp_def)
qed

theorem ParseToInts_to_string_witness:
  "ParseToInts (join '','' [to_string_nat 12, to_string_nat 7]) = Inr [12, 7]"
  using ParseToInts_to_string [of "[12, 7]"] by (simp add: INT_MAX_def)

section \<open>Commas, spaces and ranges in \<open>ParseToInts\<close>\<close>

lemma split_loop_seps:
  assumes zs: "\<forall>(t, c)\<in>set zs. set t \<inter> set m = {} \<and> c \<in> set m" and tl: "set r \<inter> set m = {}"
  shows "drop start s = concat (map (\<lambda>(t, c). t @ [c]) zs) @ r \<Longrightarrow> start \<le> length s \<Longrightarrow>
           split_loop s m False False start acc = Inr (acc @ map fst zs @ [r])"
  using zs
proof (induction zs arbitrary: start acc)
  case Nil
  then have d: "drop start s = r" by simp
  have "find_first_of s m start = None" by (rule find_first_of_clean_None [OF d tl])
  then show ?case
    using d Nil.prems by (simp add: split_loop_unfold [of s m False False start acc] split_find_def substr_Inr)
next
  case (Cons z zs)
  obtain t c where z: "z = (t, c)" by (cases z)
  let ?rest = "concat (map (\<lambda>(t, c). t @ [c]) zs) @ r"
  have tc: "set t \<inter> set m = {}" "c \<in> set m" using Cons.prems(3) z by auto
  have d: "drop start s = t @ c # ?rest" using Cons.prems(1) z by simp
  have f: "find_first_of s m start = Some (start + length t)"
    by (rule find_first_of_clean_Some [OF d tc])
  have "length s - start = length t + Suc (length ?rest)" using arg_cong [OF d, of length] by simp
  then have l: "start + length t + 1 \<le> length s" by arith
  have d': "drop (start + length t + 1) s = ?rest"
  proof -
    have "drop (start + length t + 1) s = drop (length t + 1) (drop start s)" by (simp add: add.commute add.left_commute)
    then show ?thesis using d by simp
  qed
  have ih: "split_loop s m False False (start + length t + 1) (acc @ [t]) = Inr ((acc @ [t]) @ map fst zs @ [r])"
    using Cons.IH [OF d' l] Cons.prems(3) by simp
  have "take (length t) (drop start s) = t" using d by simp
  then show ?case
    using f ih Cons.prems(2) z by (simp add: split_loop_unfold [of s m False False start acc] split_find_def substr_Inr)
qed

lemma join_butlast: "ts \<noteq> [] \<Longrightarrow> join sep ts = concat (map (\<lambda>t. t @ sep) (butlast ts)) @ last ts"
  by (induction sep ts rule: join.induct) simp_all

lemma parse_token_empty: "parse_token [] = Inr [0]"
  by (simp add: parse_token_def find_str_def atoi_def INT_MIN_def INT_MAX_def)

lemma concat_pairs_seps:
  "concat (map (\<lambda>(t, c). t @ [c]) (concat (map (\<lambda>t. [(t, a), ([], b)]) xs))) = concat (map (\<lambda>t. t @ [a, b]) xs)"
  by (induction xs) simp_all

lemma concat_singletons: "concat (concat (map (\<lambda>n. [[f n], [z]]) xs)) = concat (map (\<lambda>n. [f n, z]) xs)"
  by (induction xs) simp_all

text \<open>
  C22. In a list written with a comma and a space between the numbers, as
  \<open>ParseToInts("1, 2")\<close> receives it, \<open>Split\<close> on \<open>" ,"\<close> leaves an empty
  token between every two numbers and \<open>atoi("")\<close> is \<open>0\<close>: for every non-empty
  list of numbers that fit in an \<open>int\<close>, the result holds each number followed
  by a band \<open>0\<close>, except after the last one.
\<close>

theorem ParseToInts_comma_space:
  assumes "ns \<noteq> []" and "\<forall>n\<in>set ns. int n \<le> INT_MAX"
  shows "ParseToInts (join '', '' (map to_string_nat ns)) =
           Inr (concat (map (\<lambda>n. [of_nat n, 0]) (butlast ns)) @ [of_nat (last ns)])"
proof -
  let ?ts = "map to_string_nat ns"
  let ?zs = "concat (map (\<lambda>t. [(t, CHR '',''), ([], CHR '' '')]) (butlast ?ts))"
  have "split_loop (join '', '' ?ts) '' ,'' False False 0 [] = Inr ([] @ map fst ?zs @ [last ?ts])"
  proof (rule split_loop_seps)
    show "\<forall>(t, c)\<in>set ?zs. set t \<inter> set '' ,'' = {} \<and> c \<in> set '' ,''"
      using digits_clean by (fastforce dest!: in_set_butlastD)
    show "set (last ?ts) \<inter> set '' ,'' = {}" using assms(1) digits_clean by (simp add: last_map)
    have "concat (map (\<lambda>(t, c). t @ [c]) ?zs) = concat (map (\<lambda>t. t @ '', '') (butlast ?ts))"
      by (rule concat_pairs_seps)
    then show "drop 0 (join '', '' ?ts) = concat (map (\<lambda>(t, c). t @ [c]) ?zs) @ last ?ts"
      using join_butlast [of ?ts "'', ''"] assms(1) by simp
  qed simp
  moreover have "map fst ?zs @ [last ?ts] = concat (map (\<lambda>n. [to_string_nat n, []]) (butlast ns)) @ [to_string_nat (last ns)]"
    using assms(1) by (simp add: map_butlast last_map map_concat comp_def)
  moreover have "map_err parse_token (concat (map (\<lambda>n. [to_string_nat n, []]) xs) @ [to_string_nat x]) =
      Inr (concat (map (\<lambda>n. [[of_nat n], [0 :: 32 word]]) xs) @ [[of_nat x]])"
    if "\<forall>n\<in>set (x # xs). int n \<le> INT_MAX" for x xs
    using that by (induction xs) (simp_all add: parse_token_to_string parse_token_empty)
  ultimately show ?thesis
    using assms by (simp add: ParseToInts_def Split_def in_set_butlastD concat_singletons)
qed

theorem ParseToInts_comma_space_witness:
  "ParseToInts (join '', '' (map to_string_nat [12, 7])) = Inr [12, 0, 7]"
  using ParseToInts_comma_space [of "[12, 7]"] by (simp add: INT_MAX_def)

lemma take_one_drop:
  "(i + length [c] \<le> length s \<and> take (length [c]) (drop i s) = [c]) \<longleftrightarrow> i < length s \<and> s ! i = c"
proof (cases "i < length s")
  case True
  then have "drop i s = s ! i # drop (Suc i) s" by (simp add: Cons_nth_drop_Suc)
  then show ?thesis using True by simp
qed simp

lemma find_str_char:
  assumes "c \<notin> set A"
  shows "find_str (A @ c # B) [c] 0 = Some (length A)"
proof -
  let ?s = "A @ c # B"
  have "?s ! length A = c" by simp
  moreover have "?s ! j \<noteq> c" if "j < length A" for j using that assms by (auto simp: nth_append)
  ultimately show ?thesis unfolding find_str_def find_Some_iff take_one_drop
    by (intro exI [of _ "length A"]) (auto simp del: upt_Suc)
qed

text \<open>
  C21. A range token \<open>"a-b"\<close> of two printed numbers that fit in an \<open>int\<close> is
  read as the numbers \<open>a..b\<close> in order, as nothing when \<open>b < a\<close>, and as an
  error when \<open>b = INT_MAX\<close>: the loop \<open>for (int i = a; i <= b; i++)\<close> of
  \<open>ParseToInts\<close> would overflow its counter there.
\<close>

theorem parse_token_range:
  assumes "int a \<le> INT_MAX" and "int b \<le> INT_MAX"
  shows "parse_token (to_string_nat a @ ''-'' @ to_string_nat b) =
           (if b < a then Inr [] else if int b < INT_MAX then Inr (map word_of_int [int a..int b])
            else Inl IntOverflow)"
proof -
  let ?A = "to_string_nat a" and ?B = "to_string_nat b"
  have "CHR ''-'' \<notin> set ?A"
    using to_string_nat_digits [of "CHR ''-''" a] by (auto simp: is_digit_def less_eq_char_def)
  then have f: "find_str (?A @ ''-'' @ ?B) ''-'' 0 = Some (length ?A)"
    using find_str_char [of "CHR ''-''" ?A ?B] by simp
  have "substr (?A @ ''-'' @ ?B) 0 (Some (length ?A)) = Inr ?A"
    "substr (?A @ ''-'' @ ?B) (length ?A + 1) None = Inr ?B"
    by (simp_all add: substr_def)
  then show ?thesis
    using f atoi_to_string [OF assms(1)] atoi_to_string [OF assms(2)] int_range_outcome [of "int b" "int a" "[]"] assms(2)
    by (simp add: parse_token_def)
qed

theorem parse_token_range_witness:
  "parse_token (to_string_nat 3 @ ''-'' @ to_string_nat 2147483647) = Inl IntOverflow"
  using parse_token_range [of 3 2147483647] by (simp add: INT_MAX_def)

end
