(* ===== verification/Spec2Isabelle.thy ===== *)
theory Spec2Isabelle
  imports Histogram Image Utils Process Info
begin

text \<open>
  \<^bold>\<open>A verification development of GIP's raster core\<close>

  GIP (\<open>src/GIP\<close>) models a multi-band raster image.  The sources are three
  files: \<open>GeoRaster.cpp\<close> (one band: statistics, histogram, percentile,
  processing into another band, the text report), \<open>GeoImage.cpp\<close> (a
  collection of bands indexed by colour) and \<open>gip/Utils.h\<close> (\<open>to_string\<close>,
  string splitting, band-list parsing).  The headers they include
  (\<open>GeoData.h\<close>, \<open>GeoRaster.h\<close>, \<open>GeoRasterIO.h\<close>, \<open>Colors.h\<close>) are not among
  the sources; what the sources call from them is modelled from the
  specification and marked so in the manifest.  A band reads its pixels from
  a store of planes keyed by (dataset, band number), the model of GDAL: an
  image owns bands, a band's passes (statistics, histogram, processing) run
  the chunk loop over the tiles of the tiled reader, and the reports print
  what the bands and the collection hold.

  \<^bold>\<open>Theories.\<close>
  \<^item> \<open>Prelude\<close>: the error type (exceptions and the out-of-range accesses and
    casts C++ leaves undefined, as values), the error monad (\<open>ebind\<close>,
    \<open>fold_err\<close>, \<open>map_err\<close>), IEEE-style doubles \<open>fval\<close> (finite values as
    exact reals, with NaN and the infinities kept because the code produces
    them), the C cast of a double to \<open>unsigned int\<close>, shared list lemmas.
  \<^item> \<open>Tiling\<close> (TiledReader): \<open>GeoData\<close> (dataset handle, size, nominal tile
    shape), \<open>NumChunks\<close>, \<open>Chunk\<close>, the budget policy \<open>chunk_policy\<close>; the
    tiles cover every pixel exactly once (\<open>set_chunk_pixels\<close>,
    \<open>distinct_chunk_pixels\<close>).
  \<^item> \<open>Raster\<close> (Band, MaskStack): the \<open>GeoRaster\<close> record, the store,
    \<open>Read\<close> (gain and offset, functions, masks), the setters, the copy
    constructor (lines 11--17) and \<open>chunk_loop\<close>, the loop over chunks of
    every pass (C2: it folds over a permutation of the raster's values).
  \<^item> \<open>Stats\<close> (StatisticsEngine, lines 84--125): the two passes, the finishing
    arithmetic, the cache; the abstract specification \<open>stats_of\<close> on the
    multiset of valid values and the refinement C1; NaN and sentinel
    behaviour C3--C6; the cache invariant C7 over runs of \<open>band_step\<close>, a
    driver (modelled from the specification, not a translation) that applies
    the setters, the copy constructor and \<open>ComputeStats\<close> of the code.
  \<^item> \<open>Histogram\<close> (HistogramEngine, PercentileEstimator, lines 127--166): the
    bin index and the unchecked write at the maximum (C8), the order of
    \<open>Percentile\<close>'s tests (C9), counting (C10), degenerate bands (C11), the
    cumulative pass against running sums (C12).
  \<^item> \<open>Image\<close> (BandCollection, \<open>GeoImage.cpp\<close> lines 11--153): the colour map
    as an association list, \<open>AddBand\<close>, \<open>RemoveBand\<close>, \<open>PruneBands\<close>,
    \<open>ComputeStats\<close>, \<open>LoadBands\<close>, \<open>BandNames\<close>; C13--C16, and the colour-map
    invariant \<open>colors_wf\<close>: broken by removal (C25), while additions keep every
    colour lookup (C26).
  \<^item> \<open>Utils\<close> (String utilities): \<open>Split\<close> as a terminating function over the
    \<open>find\<close>/\<open>substr\<close> semantics (C17--C19), \<open>ParseToInts\<close> with \<open>atoi\<close> and the
    32-bit conversion (C20).
  \<^item> \<open>Process\<close> (FunctionPipeline, lines 20--56): the assignment operator,
    the type switch and \<open>GeoRasterIO<T>::Process\<close> per tile, reading the
    source and writing the destination's plane (C23), the default branch
    (C24).
  \<^item> \<open>Info\<close> (Text reports): \<open>to_string\<close>, \<open>GeoRaster::Info\<close> and its lines
    (C27), \<open>GeoImage::Info\<close> over the bands with their colour labels; the
    parsing of printed numbers by \<open>ParseToInts\<close>: range tokens and the
    \<open>INT_MAX\<close> overflow of the range loop (C21), the zero band a comma and a
    space put in (C22), and the round trip of comma-separated lists (C29).
  \<^item> This theory: C28, across components: the collection's report with
    statistics runs \<open>ComputeStats\<close> on every band through the band's report
    and leaves every cache valid and sound.

  \<^bold>\<open>Bounds and fuel.\<close>  No loop of the model needs fuel.  The loops of the
  code over chunks, pixels, bands and colours run over lists computed before
  they start and are structural recursions; the loops that are not
  (\<open>Split\<close>'s search, the percentile scan, \<open>to_string\<close>'s digit loop, the
  range loop of \<open>ParseToInts\<close>) are \<open>function\<close>s with a termination measure.
  Machine integers are kept at their width where the code converts:
  \<open>unsigned int\<close> results as 32-bit words, the \<open>int\<close> loop counter checked
  against \<open>INT_MAX\<close>.

  \<^bold>\<open>Not modelled.\<close>  The GDAL backend itself (only its planes, as a store,
  and what it reports to \<open>Info\<close>, as parameters); the stream formatting of
  doubles and \<open>GeoMask::Info()\<close> (parameters of the reports);
  floating-point rounding of finite values and signed zero, and with them
  the narrowing of the statistics to \<open>float\<close>: in particular the sentinel
  \<open>(float)DBL_MAX\<close> of a band with no valid pixel, which C++ turns into
  infinity, is kept as \<open>DBL_MAX\<close> by the model (C5 is about the double-valued
  sentinels before the narrowing); the geospatial coordinates; the
  radiometric members of a band (\<open>_minDC\<close>, \<open>_K1\<close>, \<open>_Esun\<close>,
  \<open>_Atmosphere\<close>), copied but never read by the sources.  Gain, offset and
  no-data live in the shared \<open>_GDALRasterBand\<close> in the code, so a copy of a
  band that changes them changes them for the original too; the
  \<open>GeoRaster\<close> record gives every copy its own values, and this aliasing is
  not modelled.  The percentile scan \<open>while(hist[ind] < p) ind++\<close> has no
  bound in the code; the model returns an error where it would read past
  the 100 entries.
\<close>

section \<open>Properties across components\<close>

lemma ComputeStats_fills_cache:
  assumes "cache_ok st b" and "ComputeStats st b = Inr (b', x)"
  shows "ValidStats b' \<and> cache_ok st b'"
proof -
  have "band_step st OpComputeStats b = Inr b'" using assms(2) by simp
  then have "cache_ok st b'" by (rule band_step_cache_ok [OF assms(1)])
  moreover have "ValidStats b'" using assms(2) by (auto simp: ComputeStats_def split: if_splits)
  ultimately show ?thesis by simp
qed

lemma band_entry_stats:
  assumes "cache_ok st b" and "band_entry F st True cs (i, b) = Inr (b', t)"
  shows "ValidStats b' \<and> cache_ok st b'"
proof -
  obtain x u where "ComputeStats st b = Inr (b', x)"
    using assms(2) by (auto simp: band_entry_def GeoRaster_Info_def Let_def split: prod.splits)
  then show ?thesis by (rule ComputeStats_fills_cache [OF assms(1)])
qed

text \<open>
  C28. The collection's report with statistics (\<open>GeoImage::Info(true, true)\<close>)
  runs \<open>GeoRaster::Info(true)\<close> and so \<open>ComputeStats\<close> on every band: when it
  returns, the collection has the same bands, each with a valid cache that
  holds what the two passes compute, provided the caches were sound before.
\<close>

theorem GeoImage_Info_fills_caches:
  assumes "\<forall>b\<in>set (RasterBands img). cache_ok st b" and "GeoImage_Info E F st True True img = Inr (img', s)"
  shows "NumBands img' = NumBands img \<and> (\<forall>b\<in>set (RasterBands img'). ValidStats b \<and> cache_ok st b)"
proof -
  obtain rs where rs: "map_err (band_entry F st True (Colors img)) (enumerate 0 (RasterBands img)) = Inr rs"
      and img': "img' = img\<lparr>RasterBands := map fst rs\<rparr>"
    using assms(2) by (auto simp: GeoImage_Info_def)
  have len: "length rs = length (RasterBands img)" using map_err_Inr_length [OF rs] by simp
  have "ValidStats (fst r) \<and> cache_ok st (fst r)" if r: "r \<in> set rs" for r
  proof -
    let ?E = "enumerate 0 (RasterBands img)" and ?f = "band_entry F st True (Colors img)"
    have all: "\<forall>x\<in>set ?E. ?f x = Inr (projr (?f x))" and rs': "rs = map (\<lambda>x. projr (?f x)) ?E"
      using rs by (simp_all add: map_err_Inr_iff)
    obtain ib where "ib \<in> set ?E" "r = projr (?f ib)" using r rs' by auto
    with all have ib: "ib \<in> set ?E" "?f ib = Inr r" by auto
    obtain i b where "ib = (i, b)" by (cases ib)
    with ib have "b \<in> set (RasterBands img)" "band_entry F st True (Colors img) (i, b) = Inr (fst r, snd r)"
      by (auto simp: in_set_enumerate_eq)
    then show ?thesis using assms(1) band_entry_stats by blast
  qed
  then show ?thesis using len by (auto simp: img' NumBands_def)
qed

theorem GeoImage_Info_fills_caches_witness:
  "\<exists>img' s. GeoImage_Info ex_env ex_fmt (ex_store [[200, 150]]) True True ex_image = Inr (img', s) \<and>
     NumBands img' = 1 \<and> ValidStats (hd (RasterBands img'))"
proof -
  let ?st = "ex_store [[200, 150]]"
  have r: "raster_values ?st ex_band = Inr [400, 300]"
    using raster_values_ex_band [of 200 150] by simp
  obtain b' x where "ComputeStats ?st ex_band = Inr (b', x)"
    using ComputeStats_readable [OF valid_chunking_ex_band r] by blast
  then have "\<exists>img' s. GeoImage_Info ex_env ex_fmt ?st True True ex_image = Inr (img', s)"
    by (simp add: GeoImage_Info_def ex_image_def band_entry_def GeoRaster_Info_def Let_def)
  then obtain img' s where i: "GeoImage_Info ex_env ex_fmt ?st True True ex_image = Inr (img', s)"
    by blast
  have "\<forall>b\<in>set (RasterBands ex_image). cache_ok ?st b"
    by (simp add: ex_image_def cache_ok_def ex_band_def)
  from GeoImage_Info_fills_caches [OF this i]
  have "NumBands img' = 1" "\<forall>b\<in>set (RasterBands img'). ValidStats b"
    by (simp_all add: ex_image_def NumBands_def)
  moreover from this(1) obtain b where "RasterBands img' = [b]"
    by (auto simp: NumBands_def length_Suc_conv)
  ultimately show ?thesis using i by auto
qed

end
